theory Spec2Isabelle
  imports Main "HOL-Library.Sublist"
begin

section \<open>Python values used by the module\<close>

text \<open>
  A Python \<^verbatim>\<open>str\<close> is a list of Unicode code points. The text the source writes between
  quotes is ASCII and is turned into such a list by \<open>ascii\<close>. An environment variable
  that \<^verbatim>\<open>os.getenv\<close> does not find is \<^term>\<open>None\<close>.
\<close>

type_synonym pystr = "nat list"

definition ascii :: "string \<Rightarrow> pystr" where
  "ascii v = map of_char v"

text \<open>
  The dictionaries handed to \<^verbatim>\<open>requests\<close> (\<^verbatim>\<open>json=payload\<close>) and to \<^verbatim>\<open>json.dumps\<close> are
  kept as JSON documents, with the keys as the source writes them and in its order; their
  serialisation is the library's.
\<close>

datatype json =
    JNull
  | JBool bool
  | JInt int
  | JStr pystr
  | JList "json list"
  | JObj "(string \<times> json) list"

text \<open>
  \<^verbatim>\<open>ValueError\<close> is what the module itself raises (its two \<^verbatim>\<open>raise\<close> statements), with
  its message. \<open>External\<close> is an exception raised inside the storage client or the HTTP
  client, with the name of its class (which may well be \<^verbatim>\<open>ValueError\<close>) and its
  \<^verbatim>\<open>str(e)\<close>.
\<close>

datatype exn = ValueError pystr | External pystr pystr

fun str_exn :: "exn \<Rightarrow> pystr" where
  "str_exn (ValueError m) = m"
| "str_exn (External cls m) = m"

text \<open>An interpolation \<^verbatim>\<open>{x}\<close> of an f-string, for \<open>x\<close> a string or \<^verbatim>\<open>None\<close>.\<close>

fun fstr :: "pystr option \<Rightarrow> pystr" where
  "fstr None = ascii ''None''"
| "fstr (Some v) = v"

fun json_of_opt :: "pystr option \<Rightarrow> json" where
  "json_of_opt None = JNull"
| "json_of_opt (Some v) = JStr v"

text \<open>The separator of the allow-list, \<^verbatim>\<open>","\<close>.\<close>

definition comma :: nat where
  "comma = of_char CHR '',''"

text \<open>
  \<^verbatim>\<open>str.split(",")\<close>: one piece per separator plus one, empty pieces kept, so the
  empty string splits into one empty piece.
\<close>

fun str_split :: "nat \<Rightarrow> pystr \<Rightarrow> pystr list" where
  "str_split sep [] = [[]]"
| "str_split sep (x # xs) =
     (if x = sep then [] # str_split sep xs
      else (case str_split sep xs of
              [] \<Rightarrow> [[x]]
            | p # ps \<Rightarrow> (x # p) # ps))"

text \<open>
  \<^verbatim>\<open>str.strip()\<close> removes the white space at both ends. White space is what
  \<^verbatim>\<open>str.isspace\<close> accepts: the code points 9 to 13, 28 to 32, U+0085, U+00A0, U+1680,
  U+2000 to U+200A, U+2028, U+2029, U+202F, U+205F and U+3000.
\<close>

definition is_space :: "nat \<Rightarrow> bool" where
  "is_space c =
     ((9 \<le> c \<and> c \<le> 13) \<or> (28 \<le> c \<and> c \<le> 32) \<or> c = 133 \<or> c = 160 \<or> c = 5760
      \<or> (8192 \<le> c \<and> c \<le> 8202) \<or> c = 8232 \<or> c = 8233 \<or> c = 8239 \<or> c = 8287
      \<or> c = 12288)"

definition str_strip :: "pystr \<Rightarrow> pystr" where
  "str_strip v = rev (dropWhile is_space (rev (dropWhile is_space v)))"

section \<open>Configuration, outside world and program state\<close>

record env =
  SEARCH_ENDPOINT :: "pystr option"
  SEARCH_API_KEY :: "pystr option"
  STORAGE_CONN_STRING :: "pystr option"
  BLOB_CONTAINERS :: pystr

definition HEADERS :: "env \<Rightarrow> (string \<times> pystr option) list" where
  "HEADERS cfg =
     [(''Content-Type'', Some (ascii ''application/json'')), (''api-key'', SEARCH_API_KEY cfg)]"

datatype http_method = POST | PUT

record http_request =
  req_method :: http_method
  req_url :: pystr
  req_headers :: "(string \<times> pystr option) list"
  req_json :: json

record http_response =
  status_code :: int
  resp_text :: pystr

text \<open>
  Every call that leaves the process is recorded: the container listing (with the
  connection string it was made with) and each HTTP request.
\<close>

datatype call = ListContainers "pystr option" | Http http_request

text \<open>
  The two services answer as a function of everything that was sent before (so an answer
  may depend on earlier runs), either with a value or with an exception raised inside the
  client library, of which the class name and the \<^verbatim>\<open>str(e)\<close> are kept.
\<close>

record world =
  list_containers :: "call list \<Rightarrow> pystr option \<Rightarrow> (pystr \<times> pystr) + pystr list"
  send :: "call list \<Rightarrow> http_request \<Rightarrow> (pystr \<times> pystr) + http_response"

text \<open>A log message is an f-string: its literal text and its interpolated values.\<close>

datatype fpart = Lit string | FStr pystr | FInt int | FList "pystr list"

record state =
  calls :: "call list"
  stdout :: "fpart list list"

definition log :: "fpart list \<Rightarrow> state \<Rightarrow> state" where
  "log msg s = s\<lparr>stdout := stdout s @ [Lit ''[INDEXER] '' # msg]\<rparr>"

definition requests_send :: "world \<Rightarrow> http_request \<Rightarrow> state \<Rightarrow> (exn + http_response) \<times> state" where
  "requests_send w r s =
     (case send w (calls s) r of
        Inl (cls, m) \<Rightarrow> Inl (External cls m)
      | Inr response \<Rightarrow> Inr response,
      s\<lparr>calls := calls s @ [Http r]\<rparr>)"

definition requests_post ::
  "world \<Rightarrow> pystr \<Rightarrow> (string \<times> pystr option) list \<Rightarrow> json \<Rightarrow> state \<Rightarrow> (exn + http_response) \<times> state" where
  "requests_post w u h j = requests_send w \<lparr>req_method = POST, req_url = u, req_headers = h, req_json = j\<rparr>"

definition requests_put ::
  "world \<Rightarrow> pystr \<Rightarrow> (string \<times> pystr option) list \<Rightarrow> json \<Rightarrow> state \<Rightarrow> (exn + http_response) \<times> state" where
  "requests_put w u h j = requests_send w \<lparr>req_method = PUT, req_url = u, req_headers = h, req_json = j\<rparr>"

section \<open>The module\<close>

subsection \<open>\<^verbatim>\<open>get_target_containers\<close>\<close>

definition target_names :: "env \<Rightarrow> pystr list" where
  "target_names cfg = map str_strip (str_split comma (BLOB_CONTAINERS cfg))"

definition get_target_containers :: "env \<Rightarrow> world \<Rightarrow> state \<Rightarrow> (exn + pystr list) \<times> state" where
  "get_target_containers cfg w s =
     (if BLOB_CONTAINERS cfg = [] then
        (Inl (ValueError (ascii ''BLOB_CONTAINERS env var is not set.'')), s)
      else
        let target = target_names cfg;
            s1 = s\<lparr>calls := calls s @ [ListContainers (STORAGE_CONN_STRING cfg)]\<rparr>
        in case list_containers w (calls s) (STORAGE_CONN_STRING cfg) of
             Inl (cls, m) \<Rightarrow> (Inl (External cls m), s1)
           | Inr available \<Rightarrow>
               let s2 = log [Lit ''Available containers in storage: '', FList available] s1;
                   valid = filter (\<lambda>c. c \<in> set available) target
               in if valid = [] then
                    (Inl (ValueError (ascii ''No valid containers found to index.'')), s2)
                  else
                    (Inr valid, log [Lit ''Target containers to index: '', FList valid] s2))"

subsection \<open>\<^verbatim>\<open>create_search_index\<close>\<close>

definition search_index_url :: "env \<Rightarrow> pystr" where
  "search_index_url cfg = fstr (SEARCH_ENDPOINT cfg) @ ascii ''/indexes?api-version=2024-07-01''"

definition search_index_payload :: json where
  "search_index_payload =
     JObj [
       (''name'', JStr (ascii ''financial-index'')),
       (''fields'', JList [
          JObj [(''name'', JStr (ascii ''id'')), (''type'', JStr (ascii ''Edm.String'')),
                (''key'', JBool True), (''searchable'', JBool False)],
          JObj [(''name'', JStr (ascii ''content'')), (''type'', JStr (ascii ''Edm.String'')),
                (''searchable'', JBool True)],
          JObj [(''name'', JStr (ascii ''metadata_storage_name'')),
                (''type'', JStr (ascii ''Edm.String'')),
                (''filterable'', JBool True), (''sortable'', JBool True)],
          JObj [(''name'', JStr (ascii ''metadata_storage_path'')),
                (''type'', JStr (ascii ''Edm.String'')),
                (''filterable'', JBool True)],
          JObj [(''name'', JStr (ascii ''metadata_storage_last_modified'')),
                (''type'', JStr (ascii ''Edm.DateTimeOffset'')), (''sortable'', JBool True)]
        ])
     ]"

definition create_search_index :: "env \<Rightarrow> world \<Rightarrow> state \<Rightarrow> (exn + unit) \<times> state" where
  "create_search_index cfg w s =
     (let s1 = log [Lit ''Creating or validating search index: financial-index''] s;
          url = search_index_url cfg;
          payload = search_index_payload
      in case requests_post w url (HEADERS cfg) payload s1 of
           (Inl e, s2) \<Rightarrow> (Inl e, s2)
         | (Inr response, s2) \<Rightarrow>
             (Inr (), log [Lit ''Index creation response: '', FInt (status_code response),
                           Lit '' - '', FStr (resp_text response)] s2))"

subsection \<open>\<^verbatim>\<open>create_data_source\<close>\<close>

definition data_source_url :: "env \<Rightarrow> pystr \<Rightarrow> pystr" where
  "data_source_url cfg container_name =
     fstr (SEARCH_ENDPOINT cfg) @ ascii ''/datasources/'' @ container_name
       @ ascii ''-ds?api-version=2024-07-01''"

definition data_source_payload :: "env \<Rightarrow> pystr \<Rightarrow> json" where
  "data_source_payload cfg container_name =
     JObj [
       (''name'', JStr (container_name @ ascii ''-ds'')),
       (''type'', JStr (ascii ''azureblob'')),
       (''credentials'', JObj [(''connectionString'', json_of_opt (STORAGE_CONN_STRING cfg))]),
       (''container'', JObj [(''name'', JStr container_name)])
     ]"

definition create_data_source :: "env \<Rightarrow> world \<Rightarrow> pystr \<Rightarrow> state \<Rightarrow> (exn + unit) \<times> state" where
  "create_data_source cfg w container_name s =
     (let s1 = log [Lit ''Creating datasource for container: '', FStr container_name] s;
          url = data_source_url cfg container_name;
          payload = data_source_payload cfg container_name
      in case requests_put w url (HEADERS cfg) payload s1 of
           (Inl e, s2) \<Rightarrow> (Inl e, s2)
         | (Inr response, s2) \<Rightarrow>
             (Inr (), log [Lit ''Datasource response: '', FInt (status_code response),
                           Lit '' - '', FStr (resp_text response)] s2))"

subsection \<open>\<^verbatim>\<open>create_indexer\<close>\<close>

definition indexer_url :: "env \<Rightarrow> pystr \<Rightarrow> pystr" where
  "indexer_url cfg container_name =
     fstr (SEARCH_ENDPOINT cfg) @ ascii ''/indexers/'' @ container_name
       @ ascii ''-idx?api-version=2024-07-01''"

definition indexer_payload :: "pystr \<Rightarrow> json" where
  "indexer_payload container_name =
     JObj [
       (''name'', JStr (container_name @ ascii ''-idx'')),
       (''dataSourceName'', JStr (container_name @ ascii ''-ds'')),
       (''targetIndexName'', JStr (ascii ''financial-index'')),
       (''parameters'', JObj [
          (''maxFailedItems'', JInt (- 1)),
          (''maxFailedItemsPerBatch'', JInt (- 1)),
          (''configuration'', JObj [
             (''failOnUnsupportedContentType'', JBool False),
             (''failOnUnprocessableDocument'', JBool False),
             (''indexedFileNameExtensions'', JStr (ascii ''.pdf,.docx,.xlsx,.md,.txt'')),
             (''excludedFileNameExtensions'', JStr (ascii ''.png,.jpeg'')),
             (''dataToExtract'', JStr (ascii ''contentAndMetadata''))
           ])
        ])
     ]"

definition create_indexer :: "env \<Rightarrow> world \<Rightarrow> pystr \<Rightarrow> state \<Rightarrow> (exn + unit) \<times> state" where
  "create_indexer cfg w container_name s =
     (let s1 = log [Lit ''Creating indexer for container: '', FStr container_name] s;
          url = indexer_url cfg container_name;
          payload = indexer_payload container_name
      in case requests_put w url (HEADERS cfg) payload s1 of
           (Inl e, s2) \<Rightarrow> (Inl e, s2)
         | (Inr response, s2) \<Rightarrow>
             (Inr (), log [Lit ''Indexer response: '', FInt (status_code response),
                           Lit '' - '', FStr (resp_text response)] s2))"

subsection \<open>\<^verbatim>\<open>run_indexing\<close>\<close>

text \<open>The \<^verbatim>\<open>for c in containers\<close> loop; an exception leaves it at once.\<close>

fun for_containers :: "env \<Rightarrow> world \<Rightarrow> pystr list \<Rightarrow> state \<Rightarrow> (exn + unit) \<times> state" where
  "for_containers cfg w [] s = (Inr (), s)"
| "for_containers cfg w (c # cs) s =
     (case create_data_source cfg w c s of
        (Inl e, s1) \<Rightarrow> (Inl e, s1)
      | (Inr _, s1) \<Rightarrow>
          (case create_indexer cfg w c s1 of
             (Inl e, s2) \<Rightarrow> (Inl e, s2)
           | (Inr _, s2) \<Rightarrow> for_containers cfg w cs s2))"

definition success_descriptor :: "pystr list \<Rightarrow> json" where
  "success_descriptor containers =
     JObj [(''status'', JStr (ascii ''success'')), (''containers'', JList (map JStr containers))]"

definition run_indexing :: "env \<Rightarrow> world \<Rightarrow> state \<Rightarrow> (exn + json) \<times> state" where
  "run_indexing cfg w s =
     (let s0 = log [Lit ''Starting indexing workflow''] s
      in case create_search_index cfg w s0 of
           (Inl e, s1) \<Rightarrow> (Inl e, s1)
         | (Inr _, s1) \<Rightarrow>
             (case get_target_containers cfg w s1 of
                (Inl e, s2) \<Rightarrow> (Inl e, s2)
              | (Inr containers, s2) \<Rightarrow>
                  (case for_containers cfg w containers s2 of
                     (Inl e, s3) \<Rightarrow> (Inl e, s3)
                   | (Inr _, s3) \<Rightarrow>
                       (Inr (success_descriptor containers), log [Lit ''Indexing complete.''] s3))))"

subsection \<open>\<^verbatim>\<open>manual_index\<close>\<close>

text \<open>
  \<^verbatim>\<open>func.HttpResponse(body, status_code=..., mimetype=...)\<close>; the body is the document
  given to \<^verbatim>\<open>json.dumps\<close>.
\<close>

record HttpResponse =
  body :: json
  http_status :: int
  mimetype :: pystr

definition manual_index :: "'req \<Rightarrow> env \<Rightarrow> world \<Rightarrow> state \<Rightarrow> HttpResponse \<times> state" where
  "manual_index req cfg w s =
     (let s0 = log [Lit ''HTTP trigger invoked''] s
      in case run_indexing cfg w s0 of
           (Inr result, s1) \<Rightarrow>
             (\<lparr>body = result, http_status = 200, mimetype = ascii ''application/json''\<rparr>, s1)
         | (Inl e, s1) \<Rightarrow>
             (\<lparr>body = JObj [(''status'', JStr (ascii ''error'')), (''message'', JStr (str_exn e))],
               http_status = 500, mimetype = ascii ''application/json''\<rparr>,
              log [Lit ''Error: '', FStr (str_exn e)] s1))"

section \<open>Notions used to state the properties\<close>

text \<open>The three requests, as the three functions build them.\<close>

definition search_index_request :: "env \<Rightarrow> http_request" where
  "search_index_request cfg =
     \<lparr>req_method = POST, req_url = search_index_url cfg,
      req_headers = HEADERS cfg, req_json = search_index_payload\<rparr>"

definition data_source_request :: "env \<Rightarrow> pystr \<Rightarrow> http_request" where
  "data_source_request cfg container_name =
     \<lparr>req_method = PUT, req_url = data_source_url cfg container_name,
      req_headers = HEADERS cfg, req_json = data_source_payload cfg container_name\<rparr>"

definition indexer_request :: "env \<Rightarrow> pystr \<Rightarrow> http_request" where
  "indexer_request cfg container_name =
     \<lparr>req_method = PUT, req_url = indexer_url cfg container_name,
      req_headers = HEADERS cfg, req_json = indexer_payload container_name\<rparr>"

text \<open>The calls one container contributes to a run, and those of a list of containers.\<close>

definition container_calls :: "env \<Rightarrow> pystr list \<Rightarrow> call list" where
  "container_calls cfg cs =
     concat (map (\<lambda>c. [Http (data_source_request cfg c), Http (indexer_request cfg c)]) cs)"

text \<open>The calls a run adds to the record of calls.\<close>

definition issued :: "env \<Rightarrow> world \<Rightarrow> state \<Rightarrow> call list" where
  "issued cfg w s = drop (length (calls s)) (calls (snd (run_indexing cfg w s)))"

text \<open>A request sorted by the collection of the search service it is sent to.\<close>

definition is_index_request :: "env \<Rightarrow> call \<Rightarrow> bool" where
  "is_index_request cfg c =
     (case c of
        Http r \<Rightarrow> prefix (fstr (SEARCH_ENDPOINT cfg) @ ascii ''/indexes'') (req_url r)
      | ListContainers _ \<Rightarrow> False)"

definition is_data_source_request :: "env \<Rightarrow> call \<Rightarrow> bool" where
  "is_data_source_request cfg c =
     (case c of
        Http r \<Rightarrow> prefix (fstr (SEARCH_ENDPOINT cfg) @ ascii ''/datasources/'') (req_url r)
      | ListContainers _ \<Rightarrow> False)"

definition is_indexer_request :: "env \<Rightarrow> call \<Rightarrow> bool" where
  "is_indexer_request cfg c =
     (case c of
        Http r \<Rightarrow> prefix (fstr (SEARCH_ENDPOINT cfg) @ ascii ''/indexers/'') (req_url r)
      | ListContainers _ \<Rightarrow> False)"

text \<open>A member of a JSON object.\<close>

fun json_field :: "string \<Rightarrow> json \<Rightarrow> json option" where
  "json_field k (JObj kvs) = map_of kvs k"
| "json_field k _ = None"

text \<open>
  The calls of a run in which no call raises, given the answer of the container listing.
\<close>

definition planned_calls :: "env \<Rightarrow> (pystr \<times> pystr) + pystr list \<Rightarrow> call list" where
  "planned_calls cfg listing =
     Http (search_index_request cfg) #
       (if BLOB_CONTAINERS cfg = [] then []
        else ListContainers (STORAGE_CONN_STRING cfg) #
          (case listing of
             Inl e \<Rightarrow> []
           | Inr available \<Rightarrow>
               container_calls cfg (filter (\<lambda>c. c \<in> set available) (target_names cfg))))"

text \<open>
  The requests among the calls \<open>cs\<close>, made one after the other once \<open>h\<close> has been sent,
  are all answered: none of them raises.
\<close>

fun answered :: "world \<Rightarrow> call list \<Rightarrow> call list \<Rightarrow> bool" where
  "answered w h [] = True"
| "answered w h (ListContainers conn # cs) = answered w (h @ [ListContainers conn]) cs"
| "answered w h (Http r # cs) =
     (case send w h r of
        Inl e \<Rightarrow> False
      | Inr response \<Rightarrow> answered w (h @ [Http r]) cs)"

subsection \<open>How an allow-list is written\<close>

text \<open>
  What the configuration means by its allow-list, said without the code: the names are
  written one after the other with a comma between two of them (\<^verbatim>\<open>",".join\<close>), and each
  name may have white space before and after it. An entry is kept as the white space before
  the name, the name, and the white space after it. The name itself neither begins nor ends
  with white space, and an entry holds no comma.
\<close>

fun join_commas :: "pystr list \<Rightarrow> pystr" where
  "join_commas [] = []"
| "join_commas [e] = e"
| "join_commas (e # e' # es) = e @ comma # join_commas (e' # es)"

type_synonym entry = "pystr \<times> pystr \<times> pystr"

fun entry_text :: "entry \<Rightarrow> pystr" where
  "entry_text (before, name, after) = before @ name @ after"

fun entry_name :: "entry \<Rightarrow> pystr" where
  "entry_name (before, name, after) = name"

definition trimmed :: "pystr \<Rightarrow> bool" where
  "trimmed v = (v = [] \<or> (\<not> is_space (hd v) \<and> \<not> is_space (last v)))"

fun entry_ok :: "entry \<Rightarrow> bool" where
  "entry_ok (before, name, after) =
     (list_all is_space before \<and> list_all is_space after \<and> trimmed name
      \<and> comma \<notin> set (before @ name @ after))"

definition written_as :: "pystr \<Rightarrow> entry list \<Rightarrow> bool" where
  "written_as allow_list entries =
     (entries \<noteq> [] \<and> list_all entry_ok entries
      \<and> allow_list = join_commas (map entry_text entries))"

section \<open>Create-or-update requests\<close>

text \<open>
  A request is addressed as a create-or-update of a named resource when it is a
  \<^verbatim>\<open>PUT\<close> whose URL ends in the name its payload gives the resource (followed by the API
  version): sent again, it meets the resource it made.
\<close>

definition upsert_request :: "http_request \<Rightarrow> bool" where
  "upsert_request r =
     (req_method r = PUT \<and>
      (case json_field ''name'' (req_json r) of
         Some (JStr n) \<Rightarrow>
           suffix (ascii ''/'' @ n @ ascii ''?api-version=2024-07-01'') (req_url r)
       | _ \<Rightarrow> False))"

section \<open>Concrete configurations and worlds\<close>

definition config :: "pystr \<Rightarrow> env" where
  "config allow_list =
     \<lparr>SEARCH_ENDPOINT = Some (ascii ''https://search.example.net''),
      SEARCH_API_KEY = Some (ascii ''key''),
      STORAGE_CONN_STRING = Some (ascii ''conn''), BLOB_CONTAINERS = allow_list\<rparr>"

text \<open>
  A world whose storage account holds the given containers and whose search service answers
  every request with the given status.
\<close>

definition answering :: "pystr list \<Rightarrow> int \<Rightarrow> world" where
  "answering available status =
     \<lparr>list_containers = (\<lambda>h conn. Inr available),
      send = (\<lambda>h r. Inr \<lparr>status_code = status, resp_text = []\<rparr>)\<rparr>"

definition initial_state :: state where
  "initial_state = \<lparr>calls = [], stdout = []\<rparr>"

text \<open>A world whose search service cannot be reached: every request raises.\<close>

definition unreachable :: "pystr list \<Rightarrow> pystr \<Rightarrow> pystr \<Rightarrow> world" where
  "unreachable available cls msg =
     \<lparr>list_containers = (\<lambda>h conn. Inr available), send = (\<lambda>h r. Inl (cls, msg))\<rparr>"

text \<open>
  A world whose connection string the storage client refuses, with a \<^verbatim>\<open>ValueError\<close> of
  its own, and whose search service answers every request.
\<close>

definition refusing :: "pystr \<Rightarrow> world" where
  "refusing msg =
     \<lparr>list_containers = (\<lambda>h conn. Inl (ascii ''ValueError'', msg)),
      send = (\<lambda>h r. Inr \<lparr>status_code = 201, resp_text = []\<rparr>)\<rparr>"

text \<open>
  A world whose search service remembers: it answers 201 to a request it sees for the
  first time and 409 to one it has been sent before.
\<close>

definition remembering :: "pystr list \<Rightarrow> world" where
  "remembering available =
     \<lparr>list_containers = (\<lambda>h conn. Inr available),
      send = (\<lambda>h r. if Http r \<in> set h then Inr \<lparr>status_code = 409, resp_text = ascii ''exists''\<rparr>
                     else Inr \<lparr>status_code = 201, resp_text = ascii ''created''\<rparr>)\<rparr>"

text \<open>
  A world whose search service raises for a request to the empty URL, which no run sends,
  and answers every other request.
\<close>

definition picky :: "pystr list \<Rightarrow> world" where
  "picky available =
     \<lparr>list_containers = (\<lambda>h conn. Inr available),
      send = (\<lambda>h r. if req_url r = [] then Inl (ascii ''MissingSchema'', ascii ''Invalid URL'')
                     else Inr \<lparr>status_code = 201, resp_text = []\<rparr>)\<rparr>"


section \<open>The steps, one by one\<close>

subsection \<open>Logging and sending\<close>

lemma requests_send_simps:
  "fst (requests_send w r s) =
     (case send w (calls s) r of Inl (cls, m) \<Rightarrow> Inl (External cls m) | Inr response \<Rightarrow> Inr response)"
  "calls (snd (requests_send w r s)) = calls s @ [Http r]"
  "stdout (snd (requests_send w r s)) = stdout s"
  by (simp_all add: requests_send_def)

lemma log_simps:
  "calls (log msg s) = calls s"
  "stdout (log msg s) = stdout s @ [Lit ''[INDEXER] '' # msg]"
  by (simp_all add: log_def)

lemma create_search_index_fst:
  "fst (create_search_index cfg w s) =
     (case send w (calls s) (search_index_request cfg) of Inl (cls, m) \<Rightarrow> Inl (External cls m) | Inr _ \<Rightarrow> Inr ())"
  by (simp add: create_search_index_def requests_post_def requests_send_def search_index_request_def
      log_simps Let_def split: sum.splits)

lemma create_search_index_calls:
  "calls (snd (create_search_index cfg w s)) = calls s @ [Http (search_index_request cfg)]"
  by (simp add: create_search_index_def requests_post_def requests_send_def search_index_request_def
      log_simps Let_def split: sum.splits)

lemma create_search_index_stdout:
  "stdout (snd (create_search_index cfg w s)) =
     stdout s @ [Lit ''[INDEXER] '', Lit ''Creating or validating search index: financial-index'']
       # (case send w (calls s) (search_index_request cfg) of
            Inl e \<Rightarrow> []
          | Inr response \<Rightarrow>
              [[Lit ''[INDEXER] '', Lit ''Index creation response: '', FInt (status_code response),
                Lit '' - '', FStr (resp_text response)]])"
  by (simp add: create_search_index_def requests_post_def requests_send_def search_index_request_def
      log_simps Let_def split: sum.splits)

lemma create_data_source_fst:
  "fst (create_data_source cfg w c s) =
     (case send w (calls s) (data_source_request cfg c) of Inl (cls, m) \<Rightarrow> Inl (External cls m) | Inr _ \<Rightarrow> Inr ())"
  by (simp add: create_data_source_def requests_put_def requests_send_def data_source_request_def
      log_simps Let_def split: sum.splits)

lemma create_data_source_calls:
  "calls (snd (create_data_source cfg w c s)) = calls s @ [Http (data_source_request cfg c)]"
  by (simp add: create_data_source_def requests_put_def requests_send_def data_source_request_def
      log_simps Let_def split: sum.splits)

lemma create_data_source_stdout:
  "stdout (snd (create_data_source cfg w c s)) =
     stdout s @ [Lit ''[INDEXER] '', Lit ''Creating datasource for container: '', FStr c]
       # (case send w (calls s) (data_source_request cfg c) of
            Inl e \<Rightarrow> []
          | Inr response \<Rightarrow>
              [[Lit ''[INDEXER] '', Lit ''Datasource response: '', FInt (status_code response),
                Lit '' - '', FStr (resp_text response)]])"
  by (simp add: create_data_source_def requests_put_def requests_send_def data_source_request_def
      log_simps Let_def split: sum.splits)

lemma create_indexer_fst:
  "fst (create_indexer cfg w c s) =
     (case send w (calls s) (indexer_request cfg c) of Inl (cls, m) \<Rightarrow> Inl (External cls m) | Inr _ \<Rightarrow> Inr ())"
  by (simp add: create_indexer_def requests_put_def requests_send_def indexer_request_def
      log_simps Let_def split: sum.splits)

lemma create_indexer_calls:
  "calls (snd (create_indexer cfg w c s)) = calls s @ [Http (indexer_request cfg c)]"
  by (simp add: create_indexer_def requests_put_def requests_send_def indexer_request_def
      log_simps Let_def split: sum.splits)

lemma create_indexer_stdout:
  "stdout (snd (create_indexer cfg w c s)) =
     stdout s @ [Lit ''[INDEXER] '', Lit ''Creating indexer for container: '', FStr c]
       # (case send w (calls s) (indexer_request cfg c) of
            Inl e \<Rightarrow> []
          | Inr response \<Rightarrow>
              [[Lit ''[INDEXER] '', Lit ''Indexer response: '', FInt (status_code response),
                Lit '' - '', FStr (resp_text response)]])"
  by (simp add: create_indexer_def requests_put_def requests_send_def indexer_request_def
      log_simps Let_def split: sum.splits)

subsection \<open>The resolver\<close>

lemma get_target_containers_fst:
  "fst (get_target_containers cfg w s) =
     (if BLOB_CONTAINERS cfg = [] then Inl (ValueError (ascii ''BLOB_CONTAINERS env var is not set.''))
      else case list_containers w (calls s) (STORAGE_CONN_STRING cfg) of
             Inl (cls, m) \<Rightarrow> Inl (External cls m)
           | Inr available \<Rightarrow>
               if filter (\<lambda>c. c \<in> set available) (target_names cfg) = []
               then Inl (ValueError (ascii ''No valid containers found to index.''))
               else Inr (filter (\<lambda>c. c \<in> set available) (target_names cfg)))"
  by (simp add: get_target_containers_def Let_def split: sum.splits)

lemma get_target_containers_calls:
  "calls (snd (get_target_containers cfg w s)) =
     calls s @ (if BLOB_CONTAINERS cfg = [] then [] else [ListContainers (STORAGE_CONN_STRING cfg)])"
  by (simp add: get_target_containers_def Let_def log_simps split: sum.splits)

subsection \<open>The loop over the containers\<close>

lemma for_containers_calls_prefix:
  "\<exists>k. calls (snd (for_containers cfg w cs s)) = calls s @ take k (container_calls cfg cs)"
proof (induction cs arbitrary: s)
  case Nil
  then show ?case by (simp add: container_calls_def)
next
  case (Cons c cs)
  show ?case
  proof (cases "create_data_source cfg w c s")
    case (Pair r1 s1)
    note ds = this
    have c1: "calls s1 = calls s @ [Http (data_source_request cfg c)]"
      using create_data_source_calls [of cfg w c s] ds by simp
    show ?thesis
    proof (cases r1)
      case (Inl e)
      have "calls s1 = calls s @ take 1 (container_calls cfg (c # cs))"
        using c1 by (simp add: container_calls_def)
      then show ?thesis using ds Inl by auto
    next
      case (Inr u)
      show ?thesis
      proof (cases "create_indexer cfg w c s1")
        case (Pair r2 s2)
        note ix = this
        have c2: "calls s2 = calls s @ [Http (data_source_request cfg c), Http (indexer_request cfg c)]"
          using create_indexer_calls [of cfg w c s1] ix c1 by simp
        show ?thesis
        proof (cases r2)
          case (Inl e)
          have "calls s2 = calls s @ take 2 (container_calls cfg (c # cs))"
            using c2 by (simp add: container_calls_def)
          then show ?thesis using ds ix Inl \<open>r1 = Inr u\<close> by auto
        next
          case (Inr u2)
          from Cons.IH [of s2] obtain k where
            k: "calls (snd (for_containers cfg w cs s2)) = calls s2 @ take k (container_calls cfg cs)"
            by blast
          have "calls (snd (for_containers cfg w (c # cs) s)) =
                  calls s @ take (2 + k) (container_calls cfg (c # cs))"
            using ds ix Inr \<open>r1 = Inr u\<close> k c2 by (simp add: container_calls_def)
          then show ?thesis by blast
        qed
      qed
    qed
  qed
qed

lemma for_containers_no_raise:
  assumes "\<forall>h r. \<exists>resp. send w h r = Inr resp"
  shows "fst (for_containers cfg w cs s) = Inr () \<and>
         calls (snd (for_containers cfg w cs s)) = calls s @ container_calls cfg cs"
proof (induction cs arbitrary: s)
  case Nil
  then show ?case by (simp add: container_calls_def)
next
  case (Cons c cs)
  obtain r1 s1 where ds: "create_data_source cfg w c s = (r1, s1)" by (cases "create_data_source cfg w c s")
  obtain r2 s2 where ix: "create_indexer cfg w c s1 = (r2, s2)" by (cases "create_indexer cfg w c s1")
  from assms obtain p1 where "send w (calls s) (data_source_request cfg c) = Inr p1" by blast
  then have r1: "r1 = Inr ()" using create_data_source_fst [of cfg w c s] ds by simp
  from assms obtain p2 where "send w (calls s1) (indexer_request cfg c) = Inr p2" by blast
  then have r2: "r2 = Inr ()" using create_indexer_fst [of cfg w c s1] ix by simp
  have c1: "calls s1 = calls s @ [Http (data_source_request cfg c)]"
    using create_data_source_calls [of cfg w c s] ds by simp
  have c2: "calls s2 = calls s1 @ [Http (indexer_request cfg c)]"
    using create_indexer_calls [of cfg w c s1] ix by simp
  have step: "for_containers cfg w (c # cs) s = for_containers cfg w cs s2"
    using ds ix r1 r2 by simp
  show ?case using Cons.IH [of s2] step c1 c2 by (simp add: container_calls_def)
qed

subsection \<open>A whole run\<close>

lemma container_calls_simps:
  "container_calls cfg [] = []"
  "container_calls cfg (c # cs) =
     Http (data_source_request cfg c) # Http (indexer_request cfg c) # container_calls cfg cs"
  "container_calls cfg (xs @ ys) = container_calls cfg xs @ container_calls cfg ys"
  by (simp_all add: container_calls_def)

lemma run_indexing_unfold:
  assumes "create_search_index cfg w (log [Lit ''Starting indexing workflow''] s) = (r1, s1)"
      and "get_target_containers cfg w s1 = (r2, s2)"
  shows "run_indexing cfg w s =
          (case r1 of
             Inl e \<Rightarrow> (Inl e, s1)
           | Inr _ \<Rightarrow>
               (case r2 of
                  Inl e \<Rightarrow> (Inl e, s2)
                | Inr containers \<Rightarrow>
                    (case for_containers cfg w containers s2 of
                       (Inl e, s3) \<Rightarrow> (Inl e, s3)
                     | (Inr _, s3) \<Rightarrow>
                         (Inr (success_descriptor containers), log [Lit ''Indexing complete.''] s3))))"
  using assms by (simp add: run_indexing_def Let_def split: sum.splits)

lemma run_indexing_calls_take:
  "\<exists>k. calls (snd (run_indexing cfg w s)) =
         calls s @ take (Suc k) (planned_calls cfg
           (list_containers w (calls s @ [Http (search_index_request cfg)]) (STORAGE_CONN_STRING cfg)))"
proof -
  let ?s0 = "log [Lit ''Starting indexing workflow''] s"
  let ?L = "list_containers w (calls s @ [Http (search_index_request cfg)]) (STORAGE_CONN_STRING cfg)"
  obtain r1 s1 where ci: "create_search_index cfg w ?s0 = (r1, s1)"
    by (cases "create_search_index cfg w ?s0")
  obtain r2 s2 where gt: "get_target_containers cfg w s1 = (r2, s2)"
    by (cases "get_target_containers cfg w s1")
  have c1: "calls s1 = calls s @ [Http (search_index_request cfg)]"
    using create_search_index_calls [of cfg w ?s0] ci by (simp add: log_simps)
  have c2: "calls s2 = calls s1 @ (if BLOB_CONTAINERS cfg = [] then [] else [ListContainers (STORAGE_CONN_STRING cfg)])"
    using get_target_containers_calls [of cfg w s1] gt by simp
  have f2: "r2 = (if BLOB_CONTAINERS cfg = [] then Inl (ValueError (ascii ''BLOB_CONTAINERS env var is not set.''))
      else case ?L of
             Inl (cls, m) \<Rightarrow> Inl (External cls m)
           | Inr available \<Rightarrow>
               if filter (\<lambda>c. c \<in> set available) (target_names cfg) = []
               then Inl (ValueError (ascii ''No valid containers found to index.''))
               else Inr (filter (\<lambda>c. c \<in> set available) (target_names cfg)))"
    using get_target_containers_fst [of cfg w s1] gt c1 by simp
  note run = run_indexing_unfold [OF ci gt]
  show ?thesis
  proof (cases r1)
    case (Inl e)
    then have "calls (snd (run_indexing cfg w s)) = calls s @ take (Suc 0) (planned_calls cfg ?L)"
      using run c1 by (simp add: planned_calls_def)
    then show ?thesis by blast
  next
    case r1: (Inr u)
    show ?thesis
    proof (cases r2)
      case (Inl e)
      then have "calls (snd (run_indexing cfg w s)) = calls s @ take (Suc 1) (planned_calls cfg ?L)"
        using run c1 c2 r1 by (simp add: planned_calls_def)
      then show ?thesis by blast
    next
      case r2: (Inr containers)
      from r2 f2 have nb: "BLOB_CONTAINERS cfg \<noteq> []" by (auto split: if_splits)
      from r2 f2 nb obtain available where L: "?L = Inr available"
        and cs: "containers = filter (\<lambda>c. c \<in> set available) (target_names cfg)"
        by (auto split: if_splits sum.splits)
      obtain k where k: "calls (snd (for_containers cfg w containers s2)) = calls s2 @ take k (container_calls cfg containers)"
        using for_containers_calls_prefix by blast
      have "calls (snd (run_indexing cfg w s)) = calls (snd (for_containers cfg w containers s2))"
        using run r1 r2 by (simp add: log_simps split: prod.splits sum.splits)
      also have "\<dots> = calls s @ take (Suc (Suc k)) (planned_calls cfg ?L)"
        using k c1 c2 nb L cs by (simp add: planned_calls_def)
      finally show ?thesis by blast
    qed
  qed
qed

lemma run_indexing_no_raise:
  assumes "\<forall>h r. \<exists>resp. send w h r = Inr resp"
  shows "calls (snd (run_indexing cfg w s)) =
           calls s @ planned_calls cfg
             (list_containers w (calls s @ [Http (search_index_request cfg)]) (STORAGE_CONN_STRING cfg))"
    and "fst (run_indexing cfg w s) =
          (if BLOB_CONTAINERS cfg = [] then Inl (ValueError (ascii ''BLOB_CONTAINERS env var is not set.''))
           else case list_containers w (calls s @ [Http (search_index_request cfg)]) (STORAGE_CONN_STRING cfg) of
             Inl (cls, m) \<Rightarrow> Inl (External cls m)
           | Inr available \<Rightarrow>
               if filter (\<lambda>c. c \<in> set available) (target_names cfg) = []
               then Inl (ValueError (ascii ''No valid containers found to index.''))
               else Inr (success_descriptor (filter (\<lambda>c. c \<in> set available) (target_names cfg))))"
proof -
  let ?s0 = "log [Lit ''Starting indexing workflow''] s"
  let ?L = "list_containers w (calls s @ [Http (search_index_request cfg)]) (STORAGE_CONN_STRING cfg)"
  obtain r1 s1 where ci: "create_search_index cfg w ?s0 = (r1, s1)"
    by (cases "create_search_index cfg w ?s0")
  obtain r2 s2 where gt: "get_target_containers cfg w s1 = (r2, s2)"
    by (cases "get_target_containers cfg w s1")
  from assms obtain p where "send w (calls ?s0) (search_index_request cfg) = Inr p" by blast
  then have r1: "r1 = Inr ()"
    using create_search_index_fst [of cfg w ?s0] ci by simp
  have c1: "calls s1 = calls s @ [Http (search_index_request cfg)]"
    using create_search_index_calls [of cfg w ?s0] ci by (simp add: log_simps)
  have c2: "calls s2 = calls s1 @ (if BLOB_CONTAINERS cfg = [] then [] else [ListContainers (STORAGE_CONN_STRING cfg)])"
    using get_target_containers_calls [of cfg w s1] gt by simp
  have f2: "r2 = (if BLOB_CONTAINERS cfg = [] then Inl (ValueError (ascii ''BLOB_CONTAINERS env var is not set.''))
      else case ?L of
             Inl (cls, m) \<Rightarrow> Inl (External cls m)
           | Inr available \<Rightarrow>
               if filter (\<lambda>c. c \<in> set available) (target_names cfg) = []
               then Inl (ValueError (ascii ''No valid containers found to index.''))
               else Inr (filter (\<lambda>c. c \<in> set available) (target_names cfg)))"
    using get_target_containers_fst [of cfg w s1] gt c1 by simp
  note run = run_indexing_unfold [OF ci gt]
  have loop: "fst (for_containers cfg w cs s2) = Inr () \<and>
         calls (snd (for_containers cfg w cs s2)) = calls s2 @ container_calls cfg cs" for cs
    using for_containers_no_raise [OF assms] by blast
  show "calls (snd (run_indexing cfg w s)) = calls s @ planned_calls cfg ?L"
  proof (cases r2)
    case (Inl e)
    then show ?thesis using run r1 c1 c2 f2
      by (cases "BLOB_CONTAINERS cfg = []"; cases ?L)
         (simp_all add: planned_calls_def container_calls_simps del: filter_empty_conv split: if_splits)
  next
    case (Inr containers)
    from Inr f2 have nb: "BLOB_CONTAINERS cfg \<noteq> []" by (auto split: if_splits)
    from Inr f2 nb obtain available where L: "?L = Inr available"
      and cs: "containers = filter (\<lambda>c. c \<in> set available) (target_names cfg)"
      by (auto split: if_splits sum.splits)
    obtain r3 s3 where fc: "for_containers cfg w containers s2 = (r3, s3)"
      by (cases "for_containers cfg w containers s2")
    with loop [of containers] have r3: "r3 = Inr ()" and c3: "calls s3 = calls s2 @ container_calls cfg containers"
      by simp_all
    show ?thesis using run r1 Inr fc r3 c3 c2 c1 nb L cs
      by (simp add: planned_calls_def log_simps)
  qed
  show "fst (run_indexing cfg w s) =
          (if BLOB_CONTAINERS cfg = [] then Inl (ValueError (ascii ''BLOB_CONTAINERS env var is not set.''))
           else case ?L of
             Inl (cls, m) \<Rightarrow> Inl (External cls m)
           | Inr available \<Rightarrow>
               if filter (\<lambda>c. c \<in> set available) (target_names cfg) = []
               then Inl (ValueError (ascii ''No valid containers found to index.''))
               else Inr (success_descriptor (filter (\<lambda>c. c \<in> set available) (target_names cfg))))"
  proof (cases r2)
    case (Inl e)
    then show ?thesis using run r1 f2
      by (auto split: if_splits sum.splits)
  next
    case (Inr containers)
    from Inr f2 have nb: "BLOB_CONTAINERS cfg \<noteq> []" by (auto split: if_splits)
    from Inr f2 nb obtain available where L: "?L = Inr available"
      and cs: "containers = filter (\<lambda>c. c \<in> set available) (target_names cfg)"
      and ne: "filter (\<lambda>c. c \<in> set available) (target_names cfg) \<noteq> []"
      by (auto split: if_splits sum.splits)
    obtain r3 s3 where fc: "for_containers cfg w containers s2 = (r3, s3)"
      by (cases "for_containers cfg w containers s2")
    with loop [of containers] have r3: "r3 = Inr ()" by simp
    show ?thesis using run r1 Inr fc r3 nb L cs ne by simp
  qed
qed


section \<open>Reading the allow-list\<close>

subsection \<open>Splitting at the commas\<close>

lemma str_split_not_Nil: "str_split sep v \<noteq> []"
  by (induction v) (auto split: list.splits)

lemma str_split_no_sep: "sep \<notin> set e \<Longrightarrow> str_split sep e = [e]"
  by (induction e) auto

lemma str_split_append:
  "sep \<notin> set e \<Longrightarrow> str_split sep (e @ sep # v) = e # str_split sep v"
  by (induction e) auto

lemma str_split_join:
  assumes "es \<noteq> []" and "\<forall>e\<in>set es. comma \<notin> set e"
  shows "str_split comma (join_commas es) = es"
  using assms
proof (induction es rule: join_commas.induct)
  case 1
  then show ?case by simp
next
  case (2 e)
  then show ?case by (simp add: str_split_no_sep)
next
  case (3 e e' es)
  then show ?case by (simp add: str_split_append)
qed

lemma join_commas_Cons_Cons:
  "join_commas ((x # p) # ps) = x # join_commas (p # ps)"
  by (cases ps) simp_all

lemma join_commas_split: "join_commas (str_split comma v) = v"
proof (induction v)
  case Nil
  then show ?case by simp
next
  case (Cons x xs)
  obtain p ps where split: "str_split comma xs = p # ps"
    using str_split_not_Nil [of comma xs] by (cases "str_split comma xs") auto
  show ?case
  proof (cases "x = comma")
    case True
    then show ?thesis using Cons.IH split by simp
  next
    case False
    then show ?thesis using Cons.IH split by (simp add: join_commas_Cons_Cons)
  qed
qed

lemma str_split_pieces: "e \<in> set (str_split sep v) \<Longrightarrow> sep \<notin> set e"
proof (induction v arbitrary: e)
  case Nil
  then show ?case by simp
next
  case (Cons x xs)
  obtain p ps where split: "str_split sep xs = p # ps"
    using str_split_not_Nil [of sep xs] by (cases "str_split sep xs") auto
  show ?case
  proof (cases "x = sep")
    case True
    then show ?thesis using Cons by auto
  next
    case False
    then have "e = x # p \<or> e \<in> set ps"
      using Cons.prems split by simp
    then show ?thesis
    proof
      assume "e = x # p"
      moreover have "sep \<notin> set p" using Cons.IH [of p] split by simp
      ultimately show ?thesis using False by auto
    next
      assume "e \<in> set ps"
      then show ?thesis using Cons.IH [of e] split by simp
    qed
  qed
qed

subsection \<open>Stripping the white space\<close>

lemma str_strip_blank:
  assumes "list_all is_space v"
  shows "str_strip v = []"
proof -
  have d: "dropWhile is_space v = []"
    using assms by (simp add: dropWhile_eq_Nil_conv list_all_iff)
  show ?thesis
    unfolding str_strip_def d by simp
qed

lemma str_strip_entry:
  assumes "list_all is_space before" and "list_all is_space after" and "trimmed name"
  shows "str_strip (before @ name @ after) = name"
proof (cases "name = []")
  case True
  then show ?thesis using assms(1,2) by (simp add: str_strip_blank)
next
  case False
  then have at_front: "\<not> is_space (hd name)" and at_back: "\<not> is_space (last name)"
    using assms(3) by (simp_all add: trimmed_def)
  have "dropWhile is_space (before @ name @ after) = dropWhile is_space (name @ after)"
    using assms(1) by (intro dropWhile_append2) (auto simp: list_all_iff)
  also have "\<dots> = name @ after"
    using False at_front by (cases name) simp_all
  finally have d: "dropWhile is_space (before @ name @ after) = name @ after" .
  have "dropWhile is_space (rev after @ rev name) = dropWhile is_space (rev name)"
    using assms(2) by (intro dropWhile_append2) (auto simp: list_all_iff)
  also have "\<dots> = rev name"
    using False at_back by (cases "rev name") (simp_all add: hd_rev [symmetric])
  finally show ?thesis
    using d by (simp add: str_strip_def)
qed

lemma str_strip_trimmed: "trimmed (str_strip v)"
proof (cases "str_strip v = []")
  case True
  then show ?thesis by (simp add: trimmed_def)
next
  case False
  let ?d = "dropWhile is_space v"
  let ?t = "dropWhile is_space (rev ?d)"
  have t: "?t \<noteq> []" and strip: "str_strip v = rev ?t"
    using False by (simp_all add: str_strip_def)
  have "\<not> is_space (hd ?t)"
    using t by (rule hd_dropWhile)
  then have at_back: "\<not> is_space (last (str_strip v))"
    using t strip by (simp add: last_rev)
  have "rev ?d = takeWhile is_space (rev ?d) @ ?t"
    by simp
  then have "?d = rev ?t @ rev (takeWhile is_space (rev ?d))"
    by (metis rev_append rev_rev_ident)
  then have "hd ?d = hd (str_strip v)"
    using False strip by (metis hd_append2)
  moreover have "?d \<noteq> []"
  proof
    assume "?d = []"
    then have "?t = []"
      by (simp only: rev.simps dropWhile.simps)
    with t show False ..
  qed
  then have "\<not> is_space (hd ?d)"
    by (rule hd_dropWhile)
  ultimately show ?thesis
    using at_back by (simp add: trimmed_def)
qed

lemma str_strip_decompose:
  "v = takeWhile is_space v @ str_strip v
        @ rev (takeWhile is_space (rev (dropWhile is_space v)))"
proof -
  let ?d = "dropWhile is_space v"
  have "rev ?d = takeWhile is_space (rev ?d) @ dropWhile is_space (rev ?d)"
    by simp
  then have "?d = str_strip v @ rev (takeWhile is_space (rev ?d))"
    unfolding str_strip_def by (metis rev_append rev_rev_ident)
  moreover have "v = takeWhile is_space v @ ?d"
    by simp
  ultimately show ?thesis
    by simp
qed

subsection \<open>The names of an allow-list\<close>

text \<open>
  \<^verbatim>\<open>[c.strip() for c in BLOB_CONTAINERS.split(",")]\<close> gives the names of the entries, however
  the allow-list is written; and every allow-list is written as some entries.
\<close>

lemma target_names_written:
  assumes "written_as (BLOB_CONTAINERS cfg) entries"
  shows "target_names cfg = map entry_name entries"
proof -
  have ok: "entry_ok e" if "e \<in> set entries" for e
    using assms that by (simp add: written_as_def list_all_iff)
  have "comma \<notin> set (entry_text e)" if "e \<in> set entries" for e
    using ok [OF that] by (cases e) simp
  then have "str_split comma (join_commas (map entry_text entries)) = map entry_text entries"
    using assms by (intro str_split_join) (auto simp: written_as_def)
  then have "str_split comma (BLOB_CONTAINERS cfg) = map entry_text entries"
    using assms by (simp add: written_as_def)
  moreover have "str_strip (entry_text e) = entry_name e" if "e \<in> set entries" for e
    using ok [OF that] by (cases e) (simp add: str_strip_entry)
  ultimately show ?thesis
    by (simp add: target_names_def)
qed

lemma written_as_exists: "\<exists>entries. written_as v entries"
proof -
  define entry_of :: "pystr \<Rightarrow> entry" where
    "entry_of e = (takeWhile is_space e, str_strip e,
                   rev (takeWhile is_space (rev (dropWhile is_space e))))" for e
  let ?es = "str_split comma v"
  have whole: "entry_text (entry_of e) = e" for e
    by (simp add: entry_of_def str_strip_decompose [symmetric])
  have "entry_ok (entry_of e)" if "e \<in> set ?es" for e
  proof -
    have "comma \<notin> set e"
      using that by (rule str_split_pieces)
    then have "comma \<notin> set (entry_text (entry_of e))"
      by (simp add: whole)
    moreover have "list_all is_space (takeWhile is_space e)"
      by (auto simp: list_all_iff dest: set_takeWhileD)
    moreover have "list_all is_space (rev (takeWhile is_space (rev (dropWhile is_space e))))"
      by (auto simp: list_all_iff dest: set_takeWhileD)
    ultimately show ?thesis
      using str_strip_trimmed [of e] by (simp add: entry_of_def)
  qed
  then have "list_all entry_ok (map entry_of ?es)"
    by (simp add: list_all_iff)
  moreover have "map entry_text (map entry_of es) = es" for es
    by (induction es) (simp_all add: whole)
  ultimately have "written_as v (map entry_of ?es)"
    by (simp add: written_as_def str_split_not_Nil join_commas_split)
  then show ?thesis ..
qed

lemma ascii_eq_iff [simp]: "ascii a = ascii b \<longleftrightarrow> a = b"
  by (simp add: ascii_def inj_map_eq_map inj_on_def)

lemma ascii_Nil_iff [simp]: "ascii a = [] \<longleftrightarrow> a = []" "[] = ascii a \<longleftrightarrow> a = []"
  by (auto simp: ascii_def)

lemma ascii_simps:
  "ascii [] = []"
  "ascii (c # cs) = of_char c # ascii cs"
  by (simp_all add: ascii_def)

lemma answering_simps:
  "list_containers (answering available status) h conn = Inr available"
  "send (answering available status) h r = Inr \<lparr>status_code = status, resp_text = []\<rparr>"
  by (simp_all add: answering_def)

lemma config_simps:
  "SEARCH_ENDPOINT (config a) = Some (ascii ''https://search.example.net'')"
  "SEARCH_API_KEY (config a) = Some (ascii ''key'')"
  "STORAGE_CONN_STRING (config a) = Some (ascii ''conn'')"
  "BLOB_CONTAINERS (config a) = a"
  by (simp_all add: config_def)

lemma issued_eq:
  "calls (snd (run_indexing cfg w s)) = calls s @ xs \<Longrightarrow> issued cfg w s = xs"
  by (simp add: issued_def)

lemma issued_no_raise:
  assumes "\<forall>h r. \<exists>resp. send w h r = Inr resp"
  shows "issued cfg w s = planned_calls cfg
           (list_containers w (calls s @ [Http (search_index_request cfg)]) (STORAGE_CONN_STRING cfg))"
  using run_indexing_no_raise(1) [OF assms] by (rule issued_eq)

lemma issued_take:
  "\<exists>k. issued cfg w s = take (Suc k) (planned_calls cfg
           (list_containers w (calls s @ [Http (search_index_request cfg)]) (STORAGE_CONN_STRING cfg)))"
  using run_indexing_calls_take [of cfg w s] by (auto simp: issued_def)

lemma sorted_requests:
  "is_index_request cfg (Http (search_index_request cfg))"
  "\<not> is_index_request cfg (Http (data_source_request cfg c))"
  "\<not> is_index_request cfg (Http (indexer_request cfg c))"
  "\<not> is_index_request cfg (ListContainers conn)"
  "\<not> is_data_source_request cfg (Http (search_index_request cfg))"
  "is_data_source_request cfg (Http (data_source_request cfg c))"
  "\<not> is_data_source_request cfg (Http (indexer_request cfg c))"
  "\<not> is_data_source_request cfg (ListContainers conn)"
  "\<not> is_indexer_request cfg (Http (search_index_request cfg))"
  "\<not> is_indexer_request cfg (Http (data_source_request cfg c))"
  "is_indexer_request cfg (Http (indexer_request cfg c))"
  "\<not> is_indexer_request cfg (ListContainers conn)"
  by (simp_all add: is_index_request_def is_data_source_request_def is_indexer_request_def
      search_index_request_def data_source_request_def indexer_request_def
      search_index_url_def data_source_url_def indexer_url_def ascii_def)

lemma container_calls_sorted:
  "filter (is_index_request cfg) (container_calls cfg cs) = []"
  "length (filter (is_data_source_request cfg) (container_calls cfg cs)) = length cs"
  "length (filter (is_indexer_request cfg) (container_calls cfg cs)) = length cs"
  by (induction cs) (simp_all add: container_calls_simps sorted_requests)


section \<open>Runs whose requests are answered\<close>

lemma answered_everywhere:
  assumes "\<forall>h r. \<exists>response. send w h r = Inr response"
  shows "answered w h cs"
proof (induction cs arbitrary: h)
  case Nil
  then show ?case by simp
next
  case (Cons c cs)
  show ?case
  proof (cases c)
    case (ListContainers conn)
    then show ?thesis using Cons.IH by simp
  next
    case (Http r)
    from assms obtain response where "send w h r = Inr response" by blast
    then show ?thesis using Http Cons.IH by simp
  qed
qed

lemma answered_Http:
  "answered w h (Http r # cs) \<longleftrightarrow>
     (\<exists>response. send w h r = Inr response) \<and> answered w (h @ [Http r]) cs"
  by (cases "send w h r") simp_all

lemma for_containers_answered:
  assumes "answered w (calls s) (container_calls cfg cs)"
  shows "fst (for_containers cfg w cs s) = Inr () \<and>
         calls (snd (for_containers cfg w cs s)) = calls s @ container_calls cfg cs"
  using assms
proof (induction cs arbitrary: s)
  case Nil
  then show ?case by (simp add: container_calls_simps)
next
  case (Cons c cs)
  obtain r1 s1 where ds: "create_data_source cfg w c s = (r1, s1)"
    by (cases "create_data_source cfg w c s")
  obtain r2 s2 where ix: "create_indexer cfg w c s1 = (r2, s2)"
    by (cases "create_indexer cfg w c s1")
  have c1: "calls s1 = calls s @ [Http (data_source_request cfg c)]"
    using create_data_source_calls [of cfg w c s] ds by simp
  have c2: "calls s2 = calls s1 @ [Http (indexer_request cfg c)]"
    using create_indexer_calls [of cfg w c s1] ix by simp
  from Cons.prems obtain p1 p2
    where p1: "send w (calls s) (data_source_request cfg c) = Inr p1"
      and p2: "send w (calls s1) (indexer_request cfg c) = Inr p2"
      and rest: "answered w (calls s2) (container_calls cfg cs)"
    using c1 c2 by (auto simp: container_calls_simps answered_Http simp del: answered.simps(3))
  have r1: "r1 = Inr ()"
    using create_data_source_fst [of cfg w c s] ds p1 by simp
  have r2: "r2 = Inr ()"
    using create_indexer_fst [of cfg w c s1] ix p2 by simp
  have step: "for_containers cfg w (c # cs) s = for_containers cfg w cs s2"
    using ds ix r1 r2 by simp
  show ?case
    using Cons.IH [OF rest] step c1 c2 by (simp add: container_calls_simps)
qed

text \<open>The result of the resolver depends on the state only through the calls made so far.\<close>

lemma get_target_containers_fst_calls:
  "calls s = calls s' \<Longrightarrow>
     fst (get_target_containers cfg w s) = fst (get_target_containers cfg w s')"
  by (simp add: get_target_containers_fst)

lemma get_target_containers_Inr:
  assumes "fst (get_target_containers cfg w s) = Inr resolved"
  shows "BLOB_CONTAINERS cfg \<noteq> []"
    and "\<exists>available. list_containers w (calls s) (STORAGE_CONN_STRING cfg) = Inr available
           \<and> resolved = filter (\<lambda>c. c \<in> set available) (target_names cfg)"
  using assms
  by (auto simp: get_target_containers_fst simp del: filter_empty_conv
      split: if_splits sum.splits prod.splits)

lemma run_indexing_answered:
  assumes "calls s' = calls s @ [Http (search_index_request cfg)]"
      and "fst (get_target_containers cfg w s') = Inr resolved"
      and "answered w (calls s)
             (Http (search_index_request cfg) # ListContainers (STORAGE_CONN_STRING cfg)
                # container_calls cfg resolved)"
  shows "fst (run_indexing cfg w s) = Inr (success_descriptor resolved)"
    and "calls (snd (run_indexing cfg w s)) =
           calls s @ Http (search_index_request cfg) # ListContainers (STORAGE_CONN_STRING cfg)
             # container_calls cfg resolved"
proof -
  let ?s0 = "log [Lit ''Starting indexing workflow''] s"
  obtain r1 s1 where ci: "create_search_index cfg w ?s0 = (r1, s1)"
    by (cases "create_search_index cfg w ?s0")
  obtain r2 s2 where gt: "get_target_containers cfg w s1 = (r2, s2)"
    by (cases "get_target_containers cfg w s1")
  obtain r3 s3 where fc: "for_containers cfg w resolved s2 = (r3, s3)"
    by (cases "for_containers cfg w resolved s2")
  from assms(3) obtain p where p: "send w (calls s) (search_index_request cfg) = Inr p"
    and rest: "answered w (calls s @ [Http (search_index_request cfg),
                 ListContainers (STORAGE_CONN_STRING cfg)]) (container_calls cfg resolved)"
    by (auto simp: answered_Http simp del: answered.simps(3))
  have r1: "r1 = Inr ()"
    using create_search_index_fst [of cfg w ?s0] ci p by (simp add: log_simps)
  have c1: "calls s1 = calls s @ [Http (search_index_request cfg)]"
    using create_search_index_calls [of cfg w ?s0] ci by (simp add: log_simps)
  have r2: "r2 = Inr resolved"
    using get_target_containers_fst_calls [of s1 s' cfg w] gt c1 assms(1,2) by simp
  have "BLOB_CONTAINERS cfg \<noteq> []"
    using get_target_containers_Inr(1) [OF assms(2)] .
  then have c2: "calls s2 = calls s @ [Http (search_index_request cfg),
                   ListContainers (STORAGE_CONN_STRING cfg)]"
    using get_target_containers_calls [of cfg w s1] gt c1 by simp
  have loop: "r3 = Inr ()" "calls s3 = calls s2 @ container_calls cfg resolved"
    using for_containers_answered [of w s2 cfg resolved] rest c2 fc by simp_all
  note run = run_indexing_unfold [OF ci gt]
  show "fst (run_indexing cfg w s) = Inr (success_descriptor resolved)"
    using run r1 r2 fc loop by simp
  show "calls (snd (run_indexing cfg w s)) =
           calls s @ Http (search_index_request cfg) # ListContainers (STORAGE_CONN_STRING cfg)
             # container_calls cfg resolved"
    using run r1 r2 fc loop c2 by (simp add: log_simps)
qed

lemma request_urls_not_Nil:
  "req_url (search_index_request cfg) \<noteq> []"
  "req_url (data_source_request cfg c) \<noteq> []"
  "req_url (indexer_request cfg c) \<noteq> []"
  by (simp_all add: search_index_request_def data_source_request_def indexer_request_def
      search_index_url_def data_source_url_def indexer_url_def ascii_def)

lemma picky_simps:
  "list_containers (picky available) h conn = Inr available"
  "send (picky available) h r =
     (if req_url r = [] then Inl (ascii ''MissingSchema'', ascii ''Invalid URL'')
      else Inr \<lparr>status_code = 201, resp_text = []\<rparr>)"
  by (simp_all add: picky_def)

lemma refusing_simps:
  "list_containers (refusing msg) h conn = Inl (ascii ''ValueError'', msg)"
  "send (refusing msg) h r = Inr \<lparr>status_code = 201, resp_text = []\<rparr>"
  by (simp_all add: refusing_def)

section \<open>The Container Resolver\<close>

lemma written_abc:
  "written_as (ascii ''a,b,c'') [([], ascii ''a'', []), ([], ascii ''b'', []), ([], ascii ''c'', [])]"
  by (simp add: written_as_def trimmed_def is_space_def ascii_def comma_def)

lemma written_empty: "written_as [] [([], [], [])]"
  by (simp add: written_as_def trimmed_def)

lemma written_x: "written_as (ascii ''x'') [([], ascii ''x'', [])]"
  by (simp add: written_as_def trimmed_def is_space_def ascii_def comma_def)

lemma written_a_nbsp: "written_as (ascii ''a'' @ [160]) [([], ascii ''a'', [160])]"
  by (simp add: written_as_def trimmed_def is_space_def ascii_def comma_def)

lemma written_a_nbsp_b:
  "written_as (ascii ''a'' @ [160] @ ascii '',b'') [([], ascii ''a'', [160]), ([], ascii ''b'', [])]"
  by (simp add: written_as_def trimmed_def is_space_def ascii_def comma_def)

lemma target_names_x: "target_names (config (ascii ''x'')) = [ascii ''x'']"
  using target_names_written [of "config (ascii ''x'')" "[([], ascii ''x'', [])]"] written_x
  by (simp add: config_simps)

text \<open>
  Claim C1. Let the allow-list be written as a list of entries, each a name with white
  space around it (every allow-list is written so, and in one way only as far as the names
  go), and let the storage account list its containers. Whenever the allow-list
  is not empty and at least one of its names is available, \<^verbatim>\<open>get_target_containers\<close>
  returns the names of the allow-list that are available: exactly those, in the order of the
  allow-list. With the allow-list \<^verbatim>\<open>a,b,c\<close> and the containers \<^verbatim>\<open>b\<close>, \<^verbatim>\<open>c\<close>, \<^verbatim>\<open>d\<close> it
  returns \<^verbatim>\<open>b\<close>, \<^verbatim>\<open>c\<close>.
\<close>

theorem get_target_containers_ordered_intersection:
  assumes "written_as (BLOB_CONTAINERS cfg) entries"
      and "list_containers w (calls s) (STORAGE_CONN_STRING cfg) = Inr available"
      and "BLOB_CONTAINERS cfg \<noteq> []"
      and "set (map entry_name entries) \<inter> set available \<noteq> {}"
  shows "\<exists>valid. fst (get_target_containers cfg w s) = Inr valid
           \<and> valid = filter (\<lambda>c. c \<in> set available) (map entry_name entries)
           \<and> set valid = set (map entry_name entries) \<inter> set available
           \<and> subseq valid (map entry_name entries)"
proof -
  let ?names = "map entry_name entries"
  let ?valid = "filter (\<lambda>c. c \<in> set available) ?names"
  have names: "target_names cfg = ?names"
    using assms(1) by (rule target_names_written)
  have inter: "set ?valid = set ?names \<inter> set available"
    by auto
  with assms(4) have "?valid \<noteq> []"
    by (metis set_empty)
  then have "fst (get_target_containers cfg w s) = Inr ?valid"
    using assms(2,3) names by (simp add: get_target_containers_fst del: filter_empty_conv)
  moreover have "subseq ?valid ?names"
    by simp
  ultimately show ?thesis
    using inter by blast
qed

theorem get_target_containers_ordered_intersection_witness:
  "written_as (BLOB_CONTAINERS (config (ascii ''a,b,c'')))
     [([], ascii ''a'', []), ([], ascii ''b'', []), ([], ascii ''c'', [])]
   \<and> fst (get_target_containers (config (ascii ''a,b,c''))
            (answering [ascii ''b'', ascii ''c'', ascii ''d''] 201) initial_state)
       = Inr [ascii ''b'', ascii ''c'']
   \<and> fst (get_target_containers (config (ascii ''a'' @ [160] @ ascii '',b''))
            (answering [ascii ''a'', ascii ''b''] 201) initial_state)
       = Inr [ascii ''a'', ascii ''b'']"
proof -
  let ?cfg = "config (ascii ''a,b,c'')"
  let ?w = "answering [ascii ''b'', ascii ''c'', ascii ''d''] 201"
  let ?entries = "[([], ascii ''a'', []), ([], ascii ''b'', []), ([], ascii ''c'', [])] :: entry list"
  have h1: "written_as (BLOB_CONTAINERS ?cfg) ?entries"
    using written_abc by (simp add: config_simps)
  have h2: "list_containers ?w (calls initial_state) (STORAGE_CONN_STRING ?cfg)
              = Inr [ascii ''b'', ascii ''c'', ascii ''d'']"
    by (simp add: answering_simps)
  have h3: "BLOB_CONTAINERS ?cfg \<noteq> []"
    by (simp add: config_simps ascii_def)
  have h4: "set (map entry_name ?entries) \<inter> set [ascii ''b'', ascii ''c'', ascii ''d''] \<noteq> {}"
    by simp
  from get_target_containers_ordered_intersection [OF h1 h2 h3 h4]
  have "fst (get_target_containers ?cfg ?w initial_state)
          = Inr (filter (\<lambda>c. c \<in> set [ascii ''b'', ascii ''c'', ascii ''d''])
                   (map entry_name ?entries))"
    by blast
  also have "filter (\<lambda>c. c \<in> set [ascii ''b'', ascii ''c'', ascii ''d''])
                   (map entry_name ?entries) = [ascii ''b'', ascii ''c'']"
    by (simp add: ascii_def)
  finally have abc: "fst (get_target_containers ?cfg ?w initial_state) = Inr [ascii ''b'', ascii ''c'']" .
  let ?cfg' = "config (ascii ''a'' @ [160] @ ascii '',b'')"
  let ?w' = "answering [ascii ''a'', ascii ''b''] 201"
  let ?entries' = "[([], ascii ''a'', [160]), ([], ascii ''b'', [])] :: entry list"
  have k1: "written_as (BLOB_CONTAINERS ?cfg') ?entries'"
    using written_a_nbsp_b by (simp add: config_simps)
  have k2: "list_containers ?w' (calls initial_state) (STORAGE_CONN_STRING ?cfg')
              = Inr [ascii ''a'', ascii ''b'']"
    by (simp add: answering_simps)
  have k3: "BLOB_CONTAINERS ?cfg' \<noteq> []"
    by (simp add: config_simps)
  have k4: "set (map entry_name ?entries') \<inter> set [ascii ''a'', ascii ''b''] \<noteq> {}"
    by simp
  from get_target_containers_ordered_intersection [OF k1 k2 k3 k4]
  have "fst (get_target_containers ?cfg' ?w' initial_state)
          = Inr (filter (\<lambda>c. c \<in> set [ascii ''a'', ascii ''b'']) (map entry_name ?entries'))"
    by blast
  then have "fst (get_target_containers ?cfg' ?w' initial_state) = Inr [ascii ''a'', ascii ''b'']"
    by simp
  with abc h1 show ?thesis
    by simp
qed

text \<open>
  Claim C2. With an empty allow-list \<^verbatim>\<open>get_target_containers\<close> raises its
  \<^verbatim>\<open>ValueError\<close> and leaves the state as it found it: no call has been made. However
  the allow-list is written, the resolver raises a \<^verbatim>\<open>ValueError\<close> of its own exactly when
  the allow-list is empty, or the storage account answers with containers none of which is
  a name of the allow-list. An exception of the storage client, of whatever class, is passed
  on as it is.
\<close>

theorem get_target_containers_raises_iff:
  assumes "written_as (BLOB_CONTAINERS cfg) entries"
  shows "(BLOB_CONTAINERS cfg = [] \<longrightarrow>
      get_target_containers cfg w s
        = (Inl (ValueError (ascii ''BLOB_CONTAINERS env var is not set.'')), s))
   \<and> ((\<exists>m. fst (get_target_containers cfg w s) = Inl (ValueError m))
          \<longleftrightarrow> (BLOB_CONTAINERS cfg = []
               \<or> (\<exists>available. list_containers w (calls s) (STORAGE_CONN_STRING cfg) = Inr available
                     \<and> set (map entry_name entries) \<inter> set available = {})))
   \<and> (BLOB_CONTAINERS cfg \<noteq> []
        \<and> list_containers w (calls s) (STORAGE_CONN_STRING cfg) = Inl (cls, msg)
        \<longrightarrow> fst (get_target_containers cfg w s) = Inl (External cls msg))"
proof -
  have names: "target_names cfg = map entry_name entries"
    using assms by (rule target_names_written)
  have inter: "filter (\<lambda>c. c \<in> set available) (target_names cfg) = []
           \<longleftrightarrow> set (map entry_name entries) \<inter> set available = {}" for available
    unfolding names by (auto simp: filter_empty_conv)
  have "get_target_containers cfg w s
          = (Inl (ValueError (ascii ''BLOB_CONTAINERS env var is not set.'')), s)"
    if "BLOB_CONTAINERS cfg = []"
    using that by (simp add: get_target_containers_def)
  moreover have "(\<exists>m. fst (get_target_containers cfg w s) = Inl (ValueError m))
          \<longleftrightarrow> (BLOB_CONTAINERS cfg = []
               \<or> (\<exists>available. list_containers w (calls s) (STORAGE_CONN_STRING cfg) = Inr available
                     \<and> set (map entry_name entries) \<inter> set available = {}))"
  proof (cases "list_containers w (calls s) (STORAGE_CONN_STRING cfg)")
    case (Inl e)
    then show ?thesis by (cases e) (simp add: get_target_containers_fst)
  next
    case (Inr available)
    then show ?thesis using inter [of available]
      by (simp add: get_target_containers_fst del: filter_empty_conv)
  qed
  moreover have "fst (get_target_containers cfg w s) = Inl (External cls msg)"
    if "BLOB_CONTAINERS cfg \<noteq> []"
      and "list_containers w (calls s) (STORAGE_CONN_STRING cfg) = Inl (cls, msg)"
    using that by (simp add: get_target_containers_fst)
  ultimately show ?thesis by blast
qed

theorem get_target_containers_raises_iff_witness:
  "get_target_containers (config []) (answering [ascii ''y''] 201) initial_state
     = (Inl (ValueError (ascii ''BLOB_CONTAINERS env var is not set.'')), initial_state)
   \<and> fst (get_target_containers (config (ascii ''x'')) (answering [ascii ''y''] 201) initial_state)
     = Inl (ValueError (ascii ''No valid containers found to index.''))
   \<and> (\<nexists>m. fst (get_target_containers (config (ascii ''a'' @ [160])) (answering [ascii ''a''] 201)
               initial_state) = Inl (ValueError m))
   \<and> fst (get_target_containers (config (ascii ''x''))
            (refusing (ascii ''Connection string is either blank or malformed.'')) initial_state)
     = Inl (External (ascii ''ValueError'')
              (ascii ''Connection string is either blank or malformed.''))"
proof -
  have e1: "written_as (BLOB_CONTAINERS (config [])) [([], [], [])]"
    using written_empty by (simp add: config_simps)
  have e2: "written_as (BLOB_CONTAINERS (config (ascii ''x''))) [([], ascii ''x'', [])]"
    using written_x by (simp add: config_simps)
  have e3: "written_as (BLOB_CONTAINERS (config (ascii ''a'' @ [160]))) [([], ascii ''a'', [160])]"
    using written_a_nbsp by (simp add: config_simps)
  have x: "ascii ''x'' \<noteq> []" "ascii ''x'' \<noteq> ascii ''y''" "ascii ''a'' @ [160] \<noteq> []"
    by (simp_all add: ascii_def)
  have r2: "fst (get_target_containers (config (ascii ''x'')) (answering [ascii ''y''] 201)
                 initial_state)
              = Inl (ValueError (ascii ''No valid containers found to index.''))"
    using x by (simp add: get_target_containers_fst target_names_written [OF e2]
        answering_simps config_simps)
  show ?thesis
    using get_target_containers_raises_iff [OF e1, of "answering [ascii ''y''] 201" initial_state]
      get_target_containers_raises_iff [OF e2, of "answering [ascii ''y''] 201" initial_state]
      get_target_containers_raises_iff [OF e3, of "answering [ascii ''a''] 201" initial_state]
      get_target_containers_raises_iff [OF e2,
        of "refusing (ascii ''Connection string is either blank or malformed.'')" initial_state
           "ascii ''ValueError''" "ascii ''Connection string is either blank or malformed.''"]
      x r2
    by (simp add: answering_simps refusing_simps config_simps)
qed

section \<open>The Workflow Orchestrator\<close>

lemma written_invoices:
  "written_as (ascii ''invoices,receipts'') [([], ascii ''invoices'', []), ([], ascii ''receipts'', [])]"
  by (simp add: written_as_def trimmed_def is_space_def ascii_def comma_def)

lemma target_names_invoices:
  "target_names (config (ascii ''invoices,receipts'')) = [ascii ''invoices'', ascii ''receipts'']"
  using target_names_written [of "config (ascii ''invoices,receipts'')", OF _] written_invoices
  by (simp add: config_simps)

text \<open>
  Claim C3. Take a run of \<^verbatim>\<open>run_indexing\<close> in which the resolver, called once the index
  request has been sent, returns the containers \<open>resolved\<close>, and in which none of the
  requests of the run raises (whatever the service would do with other requests, and
  whatever the status of its answers). The run sends the index request, then lists the
  containers, then for each resolved container in turn its data-source request followed by
  its indexer request, and nothing else: one index request, one data-source request and one
  indexer request per resolved container. It returns the success descriptor with the
  resolved containers.
\<close>

theorem run_indexing_sequence:
  assumes "calls s' = calls s @ [Http (search_index_request cfg)]"
      and "fst (get_target_containers cfg w s') = Inr resolved"
      and "answered w (calls s)
             (Http (search_index_request cfg) # ListContainers (STORAGE_CONN_STRING cfg)
                # concat (map (\<lambda>c. [Http (data_source_request cfg c),
                                      Http (indexer_request cfg c)]) resolved))"
  shows "fst (run_indexing cfg w s)
           = Inr (JObj [(''status'', JStr (ascii ''success'')),
                        (''containers'', JList (map JStr resolved))])
         \<and> issued cfg w s
           = Http (search_index_request cfg) # ListContainers (STORAGE_CONN_STRING cfg)
               # concat (map (\<lambda>c. [Http (data_source_request cfg c), Http (indexer_request cfg c)]) resolved)
         \<and> length (filter (is_index_request cfg) (issued cfg w s)) = 1
         \<and> length (filter (is_data_source_request cfg) (issued cfg w s)) = length resolved
         \<and> length (filter (is_indexer_request cfg) (issued cfg w s)) = length resolved"
proof -
  have plan: "answered w (calls s)
             (Http (search_index_request cfg) # ListContainers (STORAGE_CONN_STRING cfg)
                # container_calls cfg resolved)"
    using assms(3) by (simp only: container_calls_def)
  have res: "fst (run_indexing cfg w s) = Inr (success_descriptor resolved)"
    using run_indexing_answered(1) [OF assms(1,2) plan] .
  have iss: "issued cfg w s
      = Http (search_index_request cfg) # ListContainers (STORAGE_CONN_STRING cfg)
          # container_calls cfg resolved"
    using run_indexing_answered(2) [OF assms(1,2) plan] by (rule issued_eq)
  show ?thesis
    using res iss
    by (simp add: sorted_requests container_calls_sorted success_descriptor_def)
       (simp add: container_calls_def)
qed

theorem run_indexing_sequence_witness:
  "send (picky [ascii ''archive'', ascii ''invoices'', ascii ''receipts'']) []
       \<lparr>req_method = POST, req_url = [], req_headers = [], req_json = JNull\<rparr>
     = Inl (ascii ''MissingSchema'', ascii ''Invalid URL'')
   \<and> fst (run_indexing (config (ascii ''invoices,receipts''))
          (picky [ascii ''archive'', ascii ''invoices'', ascii ''receipts'']) initial_state)
     = Inr (JObj [(''status'', JStr (ascii ''success'')),
                  (''containers'', JList [JStr (ascii ''invoices''), JStr (ascii ''receipts'')])])
   \<and> length (filter (is_index_request (config (ascii ''invoices,receipts'')))
        (issued (config (ascii ''invoices,receipts''))
           (picky [ascii ''archive'', ascii ''invoices'', ascii ''receipts'']) initial_state)) = 1
   \<and> length (filter (is_data_source_request (config (ascii ''invoices,receipts'')))
        (issued (config (ascii ''invoices,receipts''))
           (picky [ascii ''archive'', ascii ''invoices'', ascii ''receipts'']) initial_state)) = 2
   \<and> length (filter (is_indexer_request (config (ascii ''invoices,receipts'')))
        (issued (config (ascii ''invoices,receipts''))
           (picky [ascii ''archive'', ascii ''invoices'', ascii ''receipts'']) initial_state)) = 2
   \<and> length (issued (config (ascii ''invoices,receipts''))
           (picky [ascii ''archive'', ascii ''invoices'', ascii ''receipts'']) initial_state) = 6"
proof -
  let ?w = "picky [ascii ''archive'', ascii ''invoices'', ascii ''receipts'']"
  let ?cfg = "config (ascii ''invoices,receipts'')"
  let ?s' = "initial_state\<lparr>calls := [Http (search_index_request ?cfg)]\<rparr>"
  have h1: "calls ?s' = calls initial_state @ [Http (search_index_request ?cfg)]"
    by (simp add: initial_state_def)
  have h2: "fst (get_target_containers ?cfg ?w ?s') = Inr [ascii ''invoices'', ascii ''receipts'']"
    by (simp add: get_target_containers_fst picky_simps config_simps target_names_invoices)
  have h3: "answered ?w (calls initial_state)
             (Http (search_index_request ?cfg) # ListContainers (STORAGE_CONN_STRING ?cfg)
                # concat (map (\<lambda>c. [Http (data_source_request ?cfg c),
                                      Http (indexer_request ?cfg c)])
                            [ascii ''invoices'', ascii ''receipts'']))"
    by (simp add: picky_simps request_urls_not_Nil)
  note t = run_indexing_sequence [OF h1 h2 h3]
  from t have "length (issued ?cfg ?w initial_state) = 6"
    by (simp add: sorted_requests)
  with t show ?thesis
    by (simp add: sorted_requests picky_simps)
qed

section \<open>The Request Handler\<close>


lemma run_indexing_Inr_form:
  assumes "fst (run_indexing cfg w s) = Inr result"
  shows "\<exists>containers. result = success_descriptor containers"
proof -
  obtain r1 s1 where ci: "create_search_index cfg w (log [Lit ''Starting indexing workflow''] s) = (r1, s1)"
    by (cases "create_search_index cfg w (log [Lit ''Starting indexing workflow''] s)")
  obtain r2 s2 where gt: "get_target_containers cfg w s1 = (r2, s2)"
    by (cases "get_target_containers cfg w s1")
  show ?thesis
    using assms run_indexing_unfold [OF ci gt]
    by (auto split: sum.splits prod.splits)
qed

lemma unreachable_simps:
  "list_containers (unreachable available cls msg) h conn = Inr available"
  "send (unreachable available cls msg) h r = Inl (cls, msg)"
  by (simp_all add: unreachable_def)

lemma run_indexing_unreachable:
  "fst (run_indexing cfg (unreachable available cls msg) s) = Inl (External cls msg)"
proof -
  let ?w = "unreachable available cls msg"
  obtain r1 s1 where ci: "create_search_index cfg ?w (log [Lit ''Starting indexing workflow''] s) = (r1, s1)"
    by (cases "create_search_index cfg ?w (log [Lit ''Starting indexing workflow''] s)")
  obtain r2 s2 where gt: "get_target_containers cfg ?w s1 = (r2, s2)"
    by (cases "get_target_containers cfg ?w s1")
  have "r1 = Inl (External cls msg)"
    using create_search_index_fst [of cfg ?w "log [Lit ''Starting indexing workflow''] s"] ci
    by (simp add: unreachable_simps)
  then show ?thesis
    using run_indexing_unfold [OF ci gt] by simp
qed

text \<open>
  Claim C4. \<^verbatim>\<open>manual_index\<close> always answers. When \<^verbatim>\<open>run_indexing\<close> returns, the answer
  has status 200 and carries its result, which is the object with \<^verbatim>\<open>status\<close>
  \<^verbatim>\<open>success\<close> and the list \<^verbatim>\<open>containers\<close>; when it raises, the answer has status 500
  and carries the object with \<^verbatim>\<open>status\<close> \<^verbatim>\<open>error\<close> and the text of the exception as
  \<^verbatim>\<open>message\<close>. Both are of type \<^verbatim>\<open>application/json\<close>.
\<close>

theorem manual_index_response:
  "fst (manual_index req cfg w s) =
     (case fst (run_indexing cfg w (log [Lit ''HTTP trigger invoked''] s)) of
        Inr result \<Rightarrow>
          \<lparr>body = result, http_status = 200, mimetype = ascii ''application/json''\<rparr>
      | Inl e \<Rightarrow>
          \<lparr>body = JObj [(''status'', JStr (ascii ''error'')), (''message'', JStr (str_exn e))],
           http_status = 500, mimetype = ascii ''application/json''\<rparr>)
   \<and> (\<forall>result. fst (run_indexing cfg w (log [Lit ''HTTP trigger invoked''] s)) = Inr result \<longrightarrow>
         (\<exists>containers. result =
            JObj [(''status'', JStr (ascii ''success'')), (''containers'', JList (map JStr containers))]))"
proof -
  obtain r s1 where run: "run_indexing cfg w (log [Lit ''HTTP trigger invoked''] s) = (r, s1)"
    by (cases "run_indexing cfg w (log [Lit ''HTTP trigger invoked''] s)")
  then have "fst (manual_index req cfg w s) =
     (case r of
        Inr result \<Rightarrow>
          \<lparr>body = result, http_status = 200, mimetype = ascii ''application/json''\<rparr>
      | Inl e \<Rightarrow>
          \<lparr>body = JObj [(''status'', JStr (ascii ''error'')), (''message'', JStr (str_exn e))],
           http_status = 500, mimetype = ascii ''application/json''\<rparr>)"
    by (simp add: manual_index_def Let_def split: sum.splits)
  moreover have "\<exists>containers. result =
            JObj [(''status'', JStr (ascii ''success'')), (''containers'', JList (map JStr containers))]"
    if "fst (run_indexing cfg w (log [Lit ''HTTP trigger invoked''] s)) = Inr result" for result
    using run_indexing_Inr_form [OF that] by (simp add: success_descriptor_def)
  ultimately show ?thesis
    using run by simp
qed

theorem manual_index_response_witness:
  "fst (manual_index () (config (ascii ''invoices,receipts''))
          (answering [ascii ''archive'', ascii ''invoices'', ascii ''receipts''] 201) initial_state)
     = \<lparr>body = JObj [(''status'', JStr (ascii ''success'')),
                     (''containers'', JList [JStr (ascii ''invoices''), JStr (ascii ''receipts'')])],
        http_status = 200, mimetype = ascii ''application/json''\<rparr>
   \<and> fst (manual_index () (config []) (answering [ascii ''invoices''] 201) initial_state)
     = \<lparr>body = JObj [(''status'', JStr (ascii ''error'')),
                     (''message'', JStr (ascii ''BLOB_CONTAINERS env var is not set.''))],
        http_status = 500, mimetype = ascii ''application/json''\<rparr>
   \<and> fst (manual_index () (config (ascii ''invoices'')) (unreachable [ascii ''invoices''] (ascii ''ConnectionError'') (ascii ''connection refused''))
          initial_state)
     = \<lparr>body = JObj [(''status'', JStr (ascii ''error'')), (''message'', JStr (ascii ''connection refused''))],
        http_status = 500, mimetype = ascii ''application/json''\<rparr>"
proof -
  have no_raise: "\<forall>h r. \<exists>response. send (answering available status) h r = Inr response"
    for available status
    by (simp add: answering_simps)
  have "fst (run_indexing (config (ascii ''invoices,receipts''))
          (answering [ascii ''archive'', ascii ''invoices'', ascii ''receipts''] 201)
          (log [Lit ''HTTP trigger invoked''] initial_state))
        = Inr (success_descriptor [ascii ''invoices'', ascii ''receipts''])"
    by (simp add: run_indexing_no_raise(2) [OF no_raise] answering_simps config_simps
        target_names_invoices)
  moreover have "fst (run_indexing (config []) (answering [ascii ''invoices''] 201)
          (log [Lit ''HTTP trigger invoked''] initial_state))
        = Inl (ValueError (ascii ''BLOB_CONTAINERS env var is not set.''))"
    by (simp add: run_indexing_no_raise(2) [OF no_raise] config_simps)
  ultimately show ?thesis
    using manual_index_response [of "()" "config (ascii ''invoices,receipts'')"
            "answering [ascii ''archive'', ascii ''invoices'', ascii ''receipts''] 201" initial_state]
      manual_index_response [of "()" "config []" "answering [ascii ''invoices''] 201" initial_state]
      manual_index_response [of "()" "config (ascii ''invoices'')"
            "unreachable [ascii ''invoices''] (ascii ''ConnectionError'') (ascii ''connection refused'')" initial_state]
    by (simp add: run_indexing_unreachable success_descriptor_def)
qed

section \<open>The registrars\<close>


text \<open>
  Claim C5. For any container name \<open>c\<close>, \<^verbatim>\<open>create_data_source\<close> sends one request,
  to the data source \<open>c\<close>\<^verbatim>\<open>-ds\<close>, which is also the name in its payload;
  \<^verbatim>\<open>create_indexer\<close> sends one request, to the indexer \<open>c\<close>\<^verbatim>\<open>-idx\<close>, which is also
  the name in its payload, and that payload names the data source \<open>c\<close>\<^verbatim>\<open>-ds\<close> and the
  index of \<^verbatim>\<open>create_search_index\<close> as its target.
\<close>

theorem registrar_names:
  "\<exists>ds ix. calls (snd (create_data_source cfg w c s)) = calls s @ [Http ds]
      \<and> calls (snd (create_indexer cfg w c s)) = calls s @ [Http ix]
      \<and> req_url ds = fstr (SEARCH_ENDPOINT cfg) @ ascii ''/datasources/'' @ (c @ ascii ''-ds'') @ ascii ''?api-version=2024-07-01''
      \<and> json_field ''name'' (req_json ds) = Some (JStr (c @ ascii ''-ds''))
      \<and> req_url ix = fstr (SEARCH_ENDPOINT cfg) @ ascii ''/indexers/'' @ (c @ ascii ''-idx'') @ ascii ''?api-version=2024-07-01''
      \<and> json_field ''name'' (req_json ix) = Some (JStr (c @ ascii ''-idx''))
      \<and> json_field ''dataSourceName'' (req_json ix) = Some (JStr (c @ ascii ''-ds''))
      \<and> json_field ''targetIndexName'' (req_json ix) = Some (JStr (ascii ''financial-index''))
      \<and> json_field ''name'' search_index_payload = Some (JStr (ascii ''financial-index''))"
proof -
  let ?ds = "data_source_request cfg c" and ?ix = "indexer_request cfg c"
  have "req_url ?ds = fstr (SEARCH_ENDPOINT cfg) @ ascii ''/datasources/'' @ (c @ ascii ''-ds'') @ ascii ''?api-version=2024-07-01''"
    by (simp add: data_source_request_def data_source_url_def ascii_def)
  moreover have "json_field ''name'' (req_json ?ds) = Some (JStr (c @ ascii ''-ds''))"
    by (simp add: data_source_request_def data_source_payload_def)
  moreover have "req_url ?ix = fstr (SEARCH_ENDPOINT cfg) @ ascii ''/indexers/'' @ (c @ ascii ''-idx'') @ ascii ''?api-version=2024-07-01''"
    by (simp add: indexer_request_def indexer_url_def ascii_def)
  moreover have "json_field ''name'' (req_json ?ix) = Some (JStr (c @ ascii ''-idx''))"
    and "json_field ''dataSourceName'' (req_json ?ix) = Some (JStr (c @ ascii ''-ds''))"
    and "json_field ''targetIndexName'' (req_json ?ix) = Some (JStr (ascii ''financial-index''))"
    by (simp_all add: indexer_request_def indexer_payload_def)
  moreover have "json_field ''name'' search_index_payload = Some (JStr (ascii ''financial-index''))"
    by (simp add: search_index_payload_def)
  ultimately show ?thesis
    using create_data_source_calls [of cfg w c s] create_indexer_calls [of cfg w c s]
    by blast
qed

text \<open>
  Claim C6. Whatever response the search service gives (any status, any body), each of
  the three write steps returns normally, having logged the status and the body; and a run
  in which every request is answered issues every call of its plan.
\<close>

theorem write_steps_do_not_raise:
  "(send w (calls s) (search_index_request cfg) = Inr response \<longrightarrow>
      fst (create_search_index cfg w s) = Inr ()
      \<and> stdout (snd (create_search_index cfg w s)) =
          stdout s @
          [[Lit ''[INDEXER] '', Lit ''Creating or validating search index: financial-index''],
           [Lit ''[INDEXER] '', Lit ''Index creation response: '', FInt (status_code response),
            Lit '' - '', FStr (resp_text response)]])
   \<and> (send w (calls s) (data_source_request cfg c) = Inr response \<longrightarrow>
      fst (create_data_source cfg w c s) = Inr ()
      \<and> stdout (snd (create_data_source cfg w c s)) =
          stdout s @
          [[Lit ''[INDEXER] '', Lit ''Creating datasource for container: '', FStr c],
           [Lit ''[INDEXER] '', Lit ''Datasource response: '', FInt (status_code response),
            Lit '' - '', FStr (resp_text response)]])
   \<and> (send w (calls s) (indexer_request cfg c) = Inr response \<longrightarrow>
      fst (create_indexer cfg w c s) = Inr ()
      \<and> stdout (snd (create_indexer cfg w c s)) =
          stdout s @
          [[Lit ''[INDEXER] '', Lit ''Creating indexer for container: '', FStr c],
           [Lit ''[INDEXER] '', Lit ''Indexer response: '', FInt (status_code response),
            Lit '' - '', FStr (resp_text response)]])
   \<and> ((\<forall>h r. \<exists>answer. send w h r = Inr answer) \<longrightarrow>
      issued cfg w s = planned_calls cfg
        (list_containers w (calls s @ [Http (search_index_request cfg)]) (STORAGE_CONN_STRING cfg)))"
proof -
  have "fst (create_search_index cfg w s) = Inr ()
      \<and> stdout (snd (create_search_index cfg w s)) =
          stdout s @
          [[Lit ''[INDEXER] '', Lit ''Creating or validating search index: financial-index''],
           [Lit ''[INDEXER] '', Lit ''Index creation response: '', FInt (status_code response),
            Lit '' - '', FStr (resp_text response)]]"
    if "send w (calls s) (search_index_request cfg) = Inr response"
    using that by (simp add: create_search_index_fst create_search_index_stdout)
  moreover have "fst (create_data_source cfg w c s) = Inr ()
      \<and> stdout (snd (create_data_source cfg w c s)) =
          stdout s @
          [[Lit ''[INDEXER] '', Lit ''Creating datasource for container: '', FStr c],
           [Lit ''[INDEXER] '', Lit ''Datasource response: '', FInt (status_code response),
            Lit '' - '', FStr (resp_text response)]]"
    if "send w (calls s) (data_source_request cfg c) = Inr response"
    using that by (simp add: create_data_source_fst create_data_source_stdout)
  moreover have "fst (create_indexer cfg w c s) = Inr ()
      \<and> stdout (snd (create_indexer cfg w c s)) =
          stdout s @
          [[Lit ''[INDEXER] '', Lit ''Creating indexer for container: '', FStr c],
           [Lit ''[INDEXER] '', Lit ''Indexer response: '', FInt (status_code response),
            Lit '' - '', FStr (resp_text response)]]"
    if "send w (calls s) (indexer_request cfg c) = Inr response"
    using that by (simp add: create_indexer_fst create_indexer_stdout)
  moreover have "issued cfg w s = planned_calls cfg
        (list_containers w (calls s @ [Http (search_index_request cfg)]) (STORAGE_CONN_STRING cfg))"
    if "\<forall>h r. \<exists>answer. send w h r = Inr answer"
    using issued_no_raise [OF that] .
  ultimately show ?thesis
    by blast
qed

lemma target_names_invoices_one:
  "target_names (config (ascii ''invoices'')) = [ascii ''invoices'']"
  by (simp add: target_names_def config_def str_strip_def is_space_def ascii_def comma_def)

theorem write_steps_do_not_raise_witness:
  "fst (create_search_index (config (ascii ''invoices'')) (answering [ascii ''invoices''] 500) initial_state) = Inr ()
   \<and> stdout (snd (create_search_index (config (ascii ''invoices'')) (answering [ascii ''invoices''] 500) initial_state))
       = [[Lit ''[INDEXER] '', Lit ''Creating or validating search index: financial-index''],
          [Lit ''[INDEXER] '', Lit ''Index creation response: '', FInt 500, Lit '' - '', FStr []]]
   \<and> fst (create_data_source (config (ascii ''invoices'')) (answering [ascii ''invoices''] 500) (ascii ''invoices'') initial_state)
       = Inr ()
   \<and> fst (create_indexer (config (ascii ''invoices'')) (answering [ascii ''invoices''] 500) (ascii ''invoices'') initial_state)
       = Inr ()
   \<and> issued (config (ascii ''invoices'')) (answering [ascii ''invoices''] 500) initial_state
       = [Http (search_index_request (config (ascii ''invoices''))), ListContainers (Some (ascii ''conn'')),
          Http (data_source_request (config (ascii ''invoices'')) (ascii ''invoices'')),
          Http (indexer_request (config (ascii ''invoices'')) (ascii ''invoices''))]"
  using write_steps_do_not_raise [of "answering [ascii ''invoices''] 500" initial_state "config (ascii ''invoices'')"
      "\<lparr>status_code = 500, resp_text = []\<rparr>" "ascii ''invoices''"]
  by (simp add: answering_simps config_simps initial_state_def planned_calls_def
      target_names_invoices_one container_calls_simps)

section \<open>The addressing of the writes\<close>


lemma registrars_send_upserts:
  "upsert_request (data_source_request cfg c)"
  "upsert_request (indexer_request cfg c)"
proof -
  have "fstr (SEARCH_ENDPOINT cfg) @ ascii ''/datasources/'' @ c @ ascii ''-ds?api-version=2024-07-01''
          = (fstr (SEARCH_ENDPOINT cfg) @ ascii ''/datasources'') @ ascii ''/'' @ (c @ ascii ''-ds'') @ ascii ''?api-version=2024-07-01''"
    by (simp add: ascii_def)
  then show "upsert_request (data_source_request cfg c)"
    unfolding upsert_request_def data_source_request_def data_source_url_def data_source_payload_def
    by (simp add: suffix_def)
  have "fstr (SEARCH_ENDPOINT cfg) @ ascii ''/indexers/'' @ c @ ascii ''-idx?api-version=2024-07-01''
          = (fstr (SEARCH_ENDPOINT cfg) @ ascii ''/indexers'') @ ascii ''/'' @ (c @ ascii ''-idx'') @ ascii ''?api-version=2024-07-01''"
    by (simp add: ascii_def)
  then show "upsert_request (indexer_request cfg c)"
    unfolding upsert_request_def indexer_request_def indexer_url_def indexer_payload_def
    by (simp add: suffix_def)
qed

text \<open>
  Claim C7. The claim is that every write, the index schema write included, is a
  create-or-update request addressed at the named resource. The data-source and indexer
  requests are; the request of \<^verbatim>\<open>create_search_index\<close> is a \<^verbatim>\<open>POST\<close> to the collection
  \<^verbatim>\<open>/indexes\<close>, which does not name the index.
\<close>

theorem search_index_write_is_not_upsert:
  "calls (snd (create_search_index cfg w s)) = calls s @ [Http (search_index_request cfg)]
   \<and> req_method (search_index_request cfg) = POST
   \<and> req_url (search_index_request cfg) = fstr (SEARCH_ENDPOINT cfg) @ ascii ''/indexes?api-version=2024-07-01''
   \<and> \<not> upsert_request (search_index_request cfg)
   \<and> upsert_request (data_source_request cfg c)
   \<and> upsert_request (indexer_request cfg c)"
  using create_search_index_calls [of cfg w s] registrars_send_upserts [of cfg c]
  by (simp add: search_index_request_def search_index_url_def upsert_request_def)

section \<open>Repeated runs\<close>

lemma remembering_simps:
  "list_containers (remembering available) h conn = Inr available"
  "send (remembering available) h r =
     (if Http r \<in> set h then Inr \<lparr>status_code = 409, resp_text = ascii ''exists''\<rparr>
      else Inr \<lparr>status_code = 201, resp_text = ascii ''created''\<rparr>)"
  by (simp_all add: remembering_def)

text \<open>
  Claim C8. Two runs with the same configuration to which the storage account gives the
  same answer issue the same calls, request for request (URL, method, headers and body),
  whatever the states they start in and whatever the search service answers: the calls of
  one run are an initial part of the calls of the other, and when no request raises in
  either run, the two runs issue the same calls.
\<close>

theorem run_indexing_payloads_repeat:
  assumes "list_containers w1 (calls s1 @ [Http (search_index_request cfg)]) (STORAGE_CONN_STRING cfg)
             = list_containers w2 (calls s2 @ [Http (search_index_request cfg)]) (STORAGE_CONN_STRING cfg)"
  shows "(prefix (issued cfg w1 s1) (issued cfg w2 s2) \<or> prefix (issued cfg w2 s2) (issued cfg w1 s1))
         \<and> ((\<forall>h r. \<exists>answer. send w1 h r = Inr answer) \<and> (\<forall>h r. \<exists>answer. send w2 h r = Inr answer)
              \<longrightarrow> issued cfg w1 s1 = issued cfg w2 s2)"
proof -
  let ?plan = "planned_calls cfg
     (list_containers w1 (calls s1 @ [Http (search_index_request cfg)]) (STORAGE_CONN_STRING cfg))"
  obtain k1 where k1: "issued cfg w1 s1 = take (Suc k1) ?plan"
    using issued_take [of cfg w1 s1] by blast
  obtain k2 where k2: "issued cfg w2 s2 = take (Suc k2) ?plan"
    using issued_take [of cfg w2 s2] assms by auto
  have "prefix (issued cfg w1 s1) ?plan" and "prefix (issued cfg w2 s2) ?plan"
    using k1 k2 by (simp_all add: take_is_prefix)
  then have "prefix (issued cfg w1 s1) (issued cfg w2 s2) \<or> prefix (issued cfg w2 s2) (issued cfg w1 s1)"
    by (rule prefix_same_cases)
  moreover have "issued cfg w1 s1 = issued cfg w2 s2"
    if "\<forall>h r. \<exists>answer. send w1 h r = Inr answer" and "\<forall>h r. \<exists>answer. send w2 h r = Inr answer"
    using issued_no_raise [OF that(1), of cfg s1] issued_no_raise [OF that(2), of cfg s2] assms
    by simp
  ultimately show ?thesis
    by blast
qed

theorem run_indexing_payloads_repeat_witness:
  "issued (config (ascii ''invoices'')) (remembering [ascii ''invoices''])
       (snd (run_indexing (config (ascii ''invoices'')) (remembering [ascii ''invoices'']) initial_state))
     = issued (config (ascii ''invoices'')) (remembering [ascii ''invoices'']) initial_state
   \<and> issued (config (ascii ''invoices'')) (remembering [ascii ''invoices'']) initial_state
     = [Http (search_index_request (config (ascii ''invoices''))), ListContainers (Some (ascii ''conn'')),
        Http (data_source_request (config (ascii ''invoices'')) (ascii ''invoices'')),
        Http (indexer_request (config (ascii ''invoices'')) (ascii ''invoices''))]"
proof -
  let ?w = "remembering [ascii ''invoices'']" and ?cfg = "config (ascii ''invoices'')"
  have no_raise: "\<forall>h r. \<exists>answer. send ?w h r = Inr answer"
    by (simp add: remembering_simps)
  have "issued ?cfg ?w initial_state
     = [Http (search_index_request ?cfg), ListContainers (Some (ascii ''conn'')),
        Http (data_source_request ?cfg (ascii ''invoices'')), Http (indexer_request ?cfg (ascii ''invoices''))]"
    by (simp add: issued_no_raise [OF no_raise] planned_calls_def remembering_simps config_simps
        target_names_invoices_one container_calls_simps)
  then show ?thesis
    using no_raise
      run_indexing_payloads_repeat [of ?w "snd (run_indexing ?cfg ?w initial_state)" ?cfg ?w initial_state]
    by (simp add: remembering_simps)
qed

section \<open>Runs that end in a configuration error\<close>

lemma for_containers_raises_External:
  "fst (for_containers cfg w cs s) = Inl e \<Longrightarrow> \<exists>cls m. e = External cls m"
proof (induction cs arbitrary: s)
  case Nil
  then show ?case by simp
next
  case (Cons c cs)
  obtain r1 s1 where ds: "create_data_source cfg w c s = (r1, s1)"
    by (cases "create_data_source cfg w c s")
  obtain r2 s2 where ix: "create_indexer cfg w c s1 = (r2, s2)"
    by (cases "create_indexer cfg w c s1")
  have f1: "r1 = (case send w (calls s) (data_source_request cfg c) of
                    Inl (cls, m) \<Rightarrow> Inl (External cls m) | Inr _ \<Rightarrow> Inr ())"
    using create_data_source_fst [of cfg w c s] ds by simp
  have f2: "r2 = (case send w (calls s1) (indexer_request cfg c) of
                    Inl (cls, m) \<Rightarrow> Inl (External cls m) | Inr _ \<Rightarrow> Inr ())"
    using create_indexer_fst [of cfg w c s1] ix by simp
  show ?case
  proof (cases r1)
    case (Inl e1)
    then show ?thesis using Cons.prems ds f1 by (auto split: sum.splits prod.splits)
  next
    case r1: (Inr u1)
    show ?thesis
    proof (cases r2)
      case (Inl e2)
      then show ?thesis using Cons.prems ds ix r1 f2 by (auto split: sum.splits prod.splits)
    next
      case (Inr u2)
      then have "for_containers cfg w (c # cs) s = for_containers cfg w cs s2"
        using ds ix r1 by simp
      then show ?thesis using Cons.prems Cons.IH [of s2] by simp
    qed
  qed
qed

text \<open>
  Claim C9. A run of \<^verbatim>\<open>run_indexing\<close> that ends in the module's \<^verbatim>\<open>ValueError\<close> has
  sent the index request, and the service has answered it; besides that request the run
  has at most listed the containers: it has sent one index request, no data-source request
  and no indexer request.
\<close>

theorem configuration_error_side_effects:
  assumes "fst (run_indexing cfg w s) = Inl (ValueError m)"
  shows "issued cfg w s
           = Http (search_index_request cfg)
               # (if BLOB_CONTAINERS cfg = [] then [] else [ListContainers (STORAGE_CONN_STRING cfg)])
         \<and> (\<exists>response. send w (calls s) (search_index_request cfg) = Inr response)
         \<and> length (filter (is_index_request cfg) (issued cfg w s)) = 1
         \<and> filter (is_data_source_request cfg) (issued cfg w s) = []
         \<and> filter (is_indexer_request cfg) (issued cfg w s) = []"
proof -
  let ?s0 = "log [Lit ''Starting indexing workflow''] s"
  obtain r1 s1 where ci: "create_search_index cfg w ?s0 = (r1, s1)"
    by (cases "create_search_index cfg w ?s0")
  obtain r2 s2 where gt: "get_target_containers cfg w s1 = (r2, s2)"
    by (cases "get_target_containers cfg w s1")
  note run = run_indexing_unfold [OF ci gt]
  have f1: "r1 = (case send w (calls s) (search_index_request cfg) of
                    Inl (cls, m) \<Rightarrow> Inl (External cls m) | Inr _ \<Rightarrow> Inr ())"
    using create_search_index_fst [of cfg w ?s0] ci by (simp add: log_simps)
  have c1: "calls s1 = calls s @ [Http (search_index_request cfg)]"
    using create_search_index_calls [of cfg w ?s0] ci by (simp add: log_simps)
  have c2: "calls s2 = calls s1 @
      (if BLOB_CONTAINERS cfg = [] then [] else [ListContainers (STORAGE_CONN_STRING cfg)])"
    using get_target_containers_calls [of cfg w s1] gt by simp
  have answered: "\<exists>response. send w (calls s) (search_index_request cfg) = Inr response"
  proof (cases "send w (calls s) (search_index_request cfg)")
    case (Inl e)
    then have "fst (run_indexing cfg w s) = Inl (External (fst e) (snd e))"
      using run f1 by (cases e) simp
    with assms show ?thesis by simp
  next
    case (Inr response)
    then show ?thesis by blast
  qed
  then have r1: "r1 = Inr ()"
    using f1 by auto
  have "\<exists>e. r2 = Inl e"
  proof (cases r2)
    case (Inl e)
    then show ?thesis by blast
  next
    case (Inr containers)
    obtain r3 s3 where fc: "for_containers cfg w containers s2 = (r3, s3)"
      by (cases "for_containers cfg w containers s2")
    have "fst (run_indexing cfg w s) \<noteq> Inl (ValueError m)"
    proof (cases r3)
      case (Inl e)
      have "\<exists>cls m. e = External cls m"
        using for_containers_raises_External [of cfg w containers s2] fc Inl by simp
      then show ?thesis using run r1 Inr fc Inl by auto
    next
      case (Inr u)
      then show ?thesis using run r1 \<open>r2 = Inr containers\<close> fc by simp
    qed
    with assms show ?thesis by simp
  qed
  then obtain e where r2: "r2 = Inl e" by blast
  have "calls (snd (run_indexing cfg w s)) = calls s2"
    using run r1 r2 by simp
  then have iss: "issued cfg w s = Http (search_index_request cfg)
               # (if BLOB_CONTAINERS cfg = [] then [] else [ListContainers (STORAGE_CONN_STRING cfg)])"
    using c1 c2 by (simp add: issued_def)
  show ?thesis
    using iss answered by (simp add: sorted_requests)
qed

lemma answering_no_raise:
  "\<forall>h r. \<exists>response. send (answering available status) h r = Inr response"
  by (simp add: answering_simps)

theorem configuration_error_side_effects_witness:
  "fst (run_indexing (config []) (answering [ascii ''invoices''] 201) initial_state)
     = Inl (ValueError (ascii ''BLOB_CONTAINERS env var is not set.''))
   \<and> issued (config []) (answering [ascii ''invoices''] 201) initial_state
     = [Http (search_index_request (config []))]
   \<and> fst (run_indexing (config (ascii ''x'')) (answering [ascii ''y''] 201) initial_state)
     = Inl (ValueError (ascii ''No valid containers found to index.''))
   \<and> issued (config (ascii ''x'')) (answering [ascii ''y''] 201) initial_state
     = [Http (search_index_request (config (ascii ''x''))), ListContainers (Some (ascii ''conn''))]"
proof -
  have r1: "fst (run_indexing (config []) (answering [ascii ''invoices''] 201) initial_state)
     = Inl (ValueError (ascii ''BLOB_CONTAINERS env var is not set.''))"
    by (simp add: run_indexing_no_raise(2) [OF answering_no_raise] config_simps)
  have r2: "fst (run_indexing (config (ascii ''x'')) (answering [ascii ''y''] 201) initial_state)
     = Inl (ValueError (ascii ''No valid containers found to index.''))"
    by (simp add: run_indexing_no_raise(2) [OF answering_no_raise] config_simps answering_simps
        target_names_x)
  show ?thesis
    using r1 r2 configuration_error_side_effects [OF r1] configuration_error_side_effects [OF r2]
    by (simp add: config_simps)
qed


section \<open>Names configured more than once\<close>

lemma count_list_filter:
  "count_list (filter P xs) c = (if P c then count_list xs c else 0)"
  by (induction xs) auto

lemma requests_distinct:
  "data_source_request cfg c = data_source_request cfg c' \<longleftrightarrow> c = c'"
  "indexer_request cfg c = indexer_request cfg c' \<longleftrightarrow> c = c'"
  "data_source_request cfg c \<noteq> indexer_request cfg c'"
  "indexer_request cfg c \<noteq> data_source_request cfg c'"
  "search_index_request cfg \<noteq> data_source_request cfg c"
  "search_index_request cfg \<noteq> indexer_request cfg c"
  by (auto simp: data_source_request_def indexer_request_def search_index_request_def
      data_source_payload_def indexer_payload_def)

lemma count_list_container_calls:
  "count_list (container_calls cfg cs) (Http (data_source_request cfg c)) = count_list cs c"
  "count_list (container_calls cfg cs) (Http (indexer_request cfg c)) = count_list cs c"
  by (induction cs) (auto simp: container_calls_simps requests_distinct)

lemma written_spaced:
  "written_as (ascii '' a,a'' @ [160] @ ascii '',b'')
     [(ascii '' '', ascii ''a'', []), ([], ascii ''a'', [160]), ([], ascii ''b'', [])]"
  by (simp add: written_as_def trimmed_def is_space_def ascii_def comma_def)

text \<open>
  Claim C10. Let the allow-list be written as a list of entries, each a name with white
  space (of any kind that \<^verbatim>\<open>str.strip\<close> removes) around it. The names are looked up among
  the available containers without that white space, and a name is kept as often as it is
  written: when the storage account holds the container \<open>c\<close> and none of the requests of the
  run raises, the resolver's result contains \<open>c\<close> once for each entry of the allow-list
  that names it, and \<^verbatim>\<open>run_indexing\<close> sends the data-source request and the indexer
  request of \<open>c\<close> once for each such entry.
\<close>

theorem duplicates_are_kept:
  assumes "written_as (BLOB_CONTAINERS cfg) entries"
      and "BLOB_CONTAINERS cfg \<noteq> []"
      and "calls s' = calls s @ [Http (search_index_request cfg)]"
      and "list_containers w (calls s') (STORAGE_CONN_STRING cfg) = Inr available"
      and "c \<in> set available"
      and "c \<in> set (map entry_name entries)"
      and "answered w (calls s)
             (Http (search_index_request cfg) # ListContainers (STORAGE_CONN_STRING cfg)
                # concat (map (\<lambda>c. [Http (data_source_request cfg c),
                                      Http (indexer_request cfg c)])
                            (filter (\<lambda>n. n \<in> set available) (map entry_name entries))))"
  shows "\<exists>valid. fst (get_target_containers cfg w s') = Inr valid
           \<and> count_list valid c = count_list (map entry_name entries) c
           \<and> count_list (issued cfg w s) (Http (data_source_request cfg c))
               = count_list (map entry_name entries) c
           \<and> count_list (issued cfg w s) (Http (indexer_request cfg c))
               = count_list (map entry_name entries) c"
proof -
  let ?names = "map entry_name entries"
  let ?valid = "filter (\<lambda>n. n \<in> set available) ?names"
  have names: "target_names cfg = ?names"
    using assms(1) by (rule target_names_written)
  have "c \<in> set ?valid"
    using assms(5,6) by simp
  then have ne: "?valid \<noteq> []"
    by (metis empty_iff empty_set)
  have res: "fst (get_target_containers cfg w s') = Inr ?valid"
    using assms(2,4) ne names by (simp add: get_target_containers_fst del: filter_empty_conv)
  have cnt: "count_list ?valid c = count_list ?names c"
    using assms(5) by (simp add: count_list_filter)
  have plan: "answered w (calls s)
             (Http (search_index_request cfg) # ListContainers (STORAGE_CONN_STRING cfg)
                # container_calls cfg ?valid)"
    using assms(7) by (simp only: container_calls_def)
  have iss: "issued cfg w s = Http (search_index_request cfg)
      # ListContainers (STORAGE_CONN_STRING cfg) # container_calls cfg ?valid"
    using run_indexing_answered(2) [OF assms(3) res plan] by (rule issued_eq)
  have "count_list (issued cfg w s) (Http (data_source_request cfg c)) = count_list ?valid c"
    and "count_list (issued cfg w s) (Http (indexer_request cfg c)) = count_list ?valid c"
    using iss by (simp_all add: count_list_container_calls requests_distinct)
  with res cnt show ?thesis
    by simp
qed

theorem duplicates_are_kept_witness:
  "written_as (BLOB_CONTAINERS (config (ascii '' a,a'' @ [160] @ ascii '',b'')))
     [(ascii '' '', ascii ''a'', []), ([], ascii ''a'', [160]), ([], ascii ''b'', [])]
   \<and> fst (get_target_containers (config (ascii '' a,a'' @ [160] @ ascii '',b''))
            (picky [ascii ''a''])
            (initial_state\<lparr>calls :=
               [Http (search_index_request (config (ascii '' a,a'' @ [160] @ ascii '',b'')))]\<rparr>))
       = Inr [ascii ''a'', ascii ''a'']
   \<and> count_list (issued (config (ascii '' a,a'' @ [160] @ ascii '',b'')) (picky [ascii ''a''])
                   initial_state)
        (Http (data_source_request (config (ascii '' a,a'' @ [160] @ ascii '',b'')) (ascii ''a''))) = 2
   \<and> count_list (issued (config (ascii '' a,a'' @ [160] @ ascii '',b'')) (picky [ascii ''a''])
                   initial_state)
        (Http (indexer_request (config (ascii '' a,a'' @ [160] @ ascii '',b'')) (ascii ''a''))) = 2"
proof -
  let ?cfg = "config (ascii '' a,a'' @ [160] @ ascii '',b'')" and ?w = "picky [ascii ''a'']"
  let ?entries = "[(ascii '' '', ascii ''a'', []), ([], ascii ''a'', [160]), ([], ascii ''b'', [])]
                    :: entry list"
  let ?s' = "initial_state\<lparr>calls := [Http (search_index_request ?cfg)]\<rparr>"
  have h1: "written_as (BLOB_CONTAINERS ?cfg) ?entries"
    using written_spaced by (simp add: config_simps)
  have h2: "BLOB_CONTAINERS ?cfg \<noteq> []"
    by (simp add: config_simps)
  have h3: "calls ?s' = calls initial_state @ [Http (search_index_request ?cfg)]"
    by (simp add: initial_state_def)
  have h4: "list_containers ?w (calls ?s') (STORAGE_CONN_STRING ?cfg) = Inr [ascii ''a'']"
    by (simp add: picky_simps)
  have h5: "ascii ''a'' \<in> set [ascii ''a'']"
    by simp
  have h6: "ascii ''a'' \<in> set (map entry_name ?entries)"
    by simp
  have h7: "answered ?w (calls initial_state)
             (Http (search_index_request ?cfg) # ListContainers (STORAGE_CONN_STRING ?cfg)
                # concat (map (\<lambda>c. [Http (data_source_request ?cfg c),
                                      Http (indexer_request ?cfg c)])
                            (filter (\<lambda>n. n \<in> set [ascii ''a'']) (map entry_name ?entries))))"
    by (simp add: picky_simps request_urls_not_Nil)
  have res: "fst (get_target_containers ?cfg ?w ?s') = Inr [ascii ''a'', ascii ''a'']"
    using h2 target_names_written [OF h1] by (simp add: get_target_containers_fst picky_simps)
  show ?thesis
    using duplicates_are_kept [OF h1 h2 h3 h4 h5 h6 h7] h1 res
    by simp
qed

end
